theory Spec2Isabelle
  imports Main "HOL-Library.Word"
begin

unbundle bit_operations_syntax

section \<open>Machine integers and byte buffers\<close>

text \<open>
  Go's fixed-width integers are words: arithmetic wraps around. \<open>int32\<close> values are the
  same 32-bit patterns read through \<open>sint\<close>, compared with \<open><s\<close> and shifted right
  with \<open>signed_drop_bit\<close>; a Go conversion between integer types of one width is the
  identity on the bit pattern, a narrowing conversion is \<open>ucast\<close>.
\<close>

type_synonym byte = "8 word"
type_synonym uint16 = "16 word"
type_synonym uint32 = "32 word"
type_synonym int32 = "32 word"
type_synonym uint64 = "64 word"

text \<open>
  \<open>binary.LittleEndian.PutUint16(b[off:], v)\<close> and \<open>PutUint32\<close>. Every call in the
  program writes into a fixed-size array at a constant offset that lies inside it.
\<close>

definition PutUint16 :: "byte list \<Rightarrow> nat \<Rightarrow> uint16 \<Rightarrow> byte list" where
  "PutUint16 b off v = b[off := ucast v, off + 1 := ucast (drop_bit 8 v)]"

definition PutUint32 :: "byte list \<Rightarrow> nat \<Rightarrow> uint32 \<Rightarrow> byte list" where
  "PutUint32 b off v =
     b[off := ucast v, off + 1 := ucast (drop_bit 8 v),
       off + 2 := ucast (drop_bit 16 v), off + 3 := ucast (drop_bit 24 v)]"

text \<open>The four bytes \<open>b[0..3]\<close> read as a little-endian \<open>uint32\<close>.\<close>

definition le32 :: "byte \<Rightarrow> byte \<Rightarrow> byte \<Rightarrow> byte \<Rightarrow> uint32" where
  "le32 b0 b1 b2 b3 =
     ucast b0 OR push_bit 8 (ucast b1) OR push_bit 16 (ucast b2) OR push_bit 24 (ucast b3)"

section \<open>The LE model (package module)\<close>

text \<open>
  The data types the serializer in \<open>module/write.go\<close> works on. The ELF front end
  builds the same structures (in the root package under lower-case names, in package
  \<open>elf\<close> with \<open>VirtualSize\<close> and \<open>BaseAddress\<close> for \<open>Size\<close> and \<open>Addr\<close>).
\<close>

record Ref =
  Obj :: int32
  Off :: int32

record Fixup =
  SrcType :: uint32
  Src :: int32
  Target :: Ref
  Add :: int32

record Object =
  Flags :: uint32
  Size :: uint32
  Addr :: uint32
  Data :: "byte list"
  Fixups :: "Fixup list"

record Program =
  Entry :: Ref
  Stack :: Ref
  Objects :: "Object list"

definition ObjR :: uint32 where "ObjR = 0x0001"
definition ObjW :: uint32 where "ObjW = 0x0002"
definition ObjX :: uint32 where "ObjX = 0x0004"
definition Obj32Bit :: uint32 where "Obj32Bit = 0x2000"

definition SrcOffset32 :: uint32 where "SrcOffset32 = 0x07"
definition SrcRelative32 :: uint32 where "SrcRelative32 = 0x08"

section \<open>The LE serializer (module/write.go)\<close>

definition pageBits :: nat where "pageBits = 12"
definition pageSize :: uint32 where "pageSize = push_bit pageBits 1"

definition pagecount :: "uint32 \<Rightarrow> uint32" where
  "pagecount sz = drop_bit pageBits (sz + pageSize - 1)"

subsection \<open>Fixup records\<close>

definition appendFixup :: "Fixup \<Rightarrow> byte list \<Rightarrow> byte list" where
  "appendFixup f data =
     (let d = replicate 9 (0 :: byte);
          d = d[0 := ucast (SrcType f)];
          d = PutUint16 d 2 (ucast (Src f));
          d = d[4 := ucast (Obj (Target f))];
          n = 5;
          (flags, d, n) =
             (if 0x7fff <s Off (Target f)
              then (0x10, PutUint32 d n (Off (Target f)), n + 4)
              else (0, PutUint16 d n (ucast (Off (Target f))), n + 2));
          d = d[1 := flags]
      in data @ take n d)"


subsection \<open>Run-time failures\<close>

text \<open>
  A Go run-time panic (index or slice bound out of range, negative \<open>make\<close> length) and
  every error the converter returns is a value; \<open>Inl\<close> carries it. The converter wraps
  an error with the location it came from (segment, section, relocation offset); the
  wrapping only prefixes text to the message and is left out.
\<close>

datatype error =
    Panic
  | SegmentNotReadable
  | SegmentUnknownFlags uint32
  | SegmentReadFailed
  | SegmentTypeUnsupported uint32
  | SymbolsFailed
  | SymbolInvalidSection int
  | SymbolOutOfBounds uint32
  | UnresolvedSymbol string uint32
  | UnsupportedRelocationType uint32
  | SectionDataFailed
  | RelLengthNotMultipleOf8
  | UnsupportedRelocationSectionType uint32
  | RelocationSectionInvalid
  | WrongClass
  | WrongData
  | WrongType
  | WrongMachine
  | EntryUnresolved uint64
  | StackEndMissing

text \<open>A loop body that may fail, run over a list: the first failure ends the loop.\<close>

fun foldE :: "('a \<Rightarrow> 's \<Rightarrow> error + 's) \<Rightarrow> 'a list \<Rightarrow> 's \<Rightarrow> error + 's" where
  "foldE f [] s = Inr s"
| "foldE f (x # xs) s = (case f x s of Inl e \<Rightarrow> Inl e | Inr s' \<Rightarrow> foldE f xs s')"

subsection \<open>Object table and object page table: \<open>objdata\<close>\<close>

record objdata =
  object :: "byte list"
  page :: "byte list"

text \<open>\<open>func (d *objdata) write(obj *Object, fixup []uint32, first, count uint32)\<close>\<close>

definition objdata_write :: "objdata \<Rightarrow> Object \<Rightarrow> uint32 list \<Rightarrow> uint32 \<Rightarrow> uint32 \<Rightarrow> objdata" where
  "objdata_write d obj fixup first cnt =
     (let od = replicate (4 * 6) (0 :: byte);
          od = PutUint32 od 0 (Size obj);
          od = PutUint32 od 4 (Addr obj);
          od = PutUint32 od 8 (Flags obj);
          (od, pg) =
             (if length fixup \<noteq> 0
              then (PutUint32 (PutUint32 od 12 (of_nat (length (page d) div 4) + 1))
                      16 (of_nat (length fixup)),
                    page d @ concat (map (\<lambda>idx. [0, ucast (drop_bit 8 idx), ucast (idx AND 0xff), 0])
                                      fixup))
              else (od, page d))
      in \<lparr>object = object d @ od, page = pg\<rparr>)"

subsection \<open>Fixup page table and fixup records: \<open>fixupdata\<close>\<close>

record fixupdata =
  pages :: "byte list"
  records :: "byte list"

text \<open>
  The values \<open>off\<close> takes in \<open>for off := int32(start); off < lim; off += step\<close>.
  Both loops of \<open>fixupdata.write\<close> have a positive constant step.
\<close>

function offsets :: "nat \<Rightarrow> nat \<Rightarrow> nat \<Rightarrow> nat list" where
  "offsets off lim step =
     (if off < lim \<and> 0 < step then off # offsets (off + step) lim step else [])"
  by pat_completeness auto
termination
  by (relation "measure (\<lambda>(off, lim, step). lim - off)") auto

declare offsets.simps [simp del]

text \<open>The first loop: the largest \<open>f.Src + 3\<close>, or \<open>-1\<close>.\<close>

definition maxOffLoop :: "Fixup list \<Rightarrow> int32" where
  "maxOffLoop fixups =
     foldl (\<lambda>maxOff f. let off = Src f + 3 in if maxOff <s off then off else maxOff) (- 1) fixups"

text \<open>
  The counting pass. \<open>last\<close> is set to \<open>-1\<close> for each fixup and never assigned again.
  The guard \<open>pi > last && pi < npage\<close> keeps \<open>idxs[pi]\<close> inside the slice of length
  \<open>npage\<close>.
\<close>

definition countStep :: "int32 \<Rightarrow> Fixup \<Rightarrow> nat \<Rightarrow> uint32 list \<Rightarrow> uint32 list" where
  "countStep npage f off idxs =
     (let last = - 1;
          pi = signed_drop_bit pageBits (Src f + of_nat off)
      in if last <s pi \<and> pi <s npage
         then idxs[nat (sint pi) := idxs ! nat (sint pi) + 1]
         else idxs)"

definition countLoop :: "int32 \<Rightarrow> Fixup list \<Rightarrow> uint32 list \<Rightarrow> uint32 list" where
  "countLoop npage fixups idxs =
     foldl (\<lambda>idxs f. foldl (\<lambda>idxs off. countStep npage f off idxs) idxs (offsets 0 3 3))
       idxs fixups"

text \<open>\<open>for i, n := range idxs { idxs[i] = total; total += n }\<close>\<close>

fun prefixLoop :: "uint32 \<Rightarrow> uint32 list \<Rightarrow> uint32 list \<times> uint32" where
  "prefixLoop tot [] = ([], tot)"
| "prefixLoop tot (n # ns) =
     (let (r, t) = prefixLoop (tot + n) ns in (tot # r, t))"

text \<open>The placing pass; \<open>assigned[idx] = f\<close> panics when \<open>idx\<close> is out of range.\<close>

definition assignStep ::
  "int32 \<Rightarrow> Fixup \<Rightarrow> nat \<Rightarrow> uint32 list \<times> Fixup list \<Rightarrow> error + (uint32 list \<times> Fixup list)" where
  "assignStep npage f off st =
     (case st of (idxs, assigned) \<Rightarrow>
        let last = - 1;
            pi = signed_drop_bit pageBits (Src f + of_nat off)
        in if last <s pi \<and> pi <s npage
           then let idx = idxs ! nat (sint pi);
                    idxs = idxs[nat (sint pi) := idx + 1]
                in if unat idx < length assigned
                   then Inr (idxs, assigned[unat idx := f])
                   else Inl Panic
           else Inr (idxs, assigned))"

definition assignLoop ::
  "int32 \<Rightarrow> Fixup list \<Rightarrow> uint32 list \<times> Fixup list \<Rightarrow> error + (uint32 list \<times> Fixup list)" where
  "assignLoop npage fixups st =
     foldE (\<lambda>f st. foldE (assignStep npage f) (offsets 0 4 4) st) fixups st"

text \<open>
  The output loop \<open>for pi, idx := range idxs\<close>. The state is \<open>(idxs, pos, pgs,
  recs)\<close>, the last two being the local \<open>pages\<close> and \<open>records\<close>; \<open>idx\<close> is the element as the pass before left it, since iteration \<open>pi\<close>
  is the only one that writes \<open>idxs[pi]\<close>. \<open>assigned[pos:idx]\<close> panics unless
  \<open>pos \<le> idx \<le> len(assigned)\<close>.
\<close>

definition zeroFixup :: Fixup where
  "zeroFixup = \<lparr>SrcType = 0, Src = 0, Target = \<lparr>Obj = 0, Off = 0\<rparr>, Add = 0\<rparr>"

definition emitStep ::
  "Fixup list \<Rightarrow> nat \<Rightarrow> uint32 list \<times> uint32 \<times> byte list \<times> byte list \<Rightarrow>
   error + (uint32 list \<times> uint32 \<times> byte list \<times> byte list)" where
  "emitStep assigned pi st =
     (case st of (idxs, pos, pgs, recs) \<Rightarrow>
        let idx = idxs ! pi;
            idxs = (if pos = idx then idxs[pi := 0] else idxs);
            idxs = idxs[pi := of_nat (length pgs div 4)]
        in if unat pos \<le> unat idx \<and> unat idx \<le> length assigned
           then let pfixups = take (unat idx - unat pos) (drop (unat pos) assigned);
                    base = (of_nat (push_bit pageBits pi) :: int32);
                    recs = foldl (\<lambda>recs f. appendFixup (f\<lparr>Src := Src f - base\<rparr>) recs)
                             recs pfixups;
                    roff = PutUint32 (replicate 4 0) 0 (of_nat (length recs))
                in Inr (idxs, idx, pgs @ roff, recs)
           else Inl Panic)"

text \<open>\<open>func (d *fixupdata) write(size uint32, fixups []Fixup) []uint32\<close>\<close>

definition fixupdata_write ::
  "fixupdata \<Rightarrow> uint32 \<Rightarrow> Fixup list \<Rightarrow> error + (uint32 list \<times> fixupdata)" where
  "fixupdata_write d sz fixups =
     (if sz = 0 then Inr ([], d)
      else
        let npage = pagecount sz;
            maxOff = maxOffLoop fixups
        in if maxOff <s 0 then Inr ([], d)
           else
             let n = signed_drop_bit pageBits maxOff + 1;
                 npage = (if npage <s n then n else npage)
             in if npage <s 0 then Inl Panic
                else
                  let idxs = replicate (nat (sint npage)) 0;
                      idxs = countLoop npage fixups idxs;
                      idxs = take (nat (sint npage)) idxs;
                      (idxs, tot) = prefixLoop 0 idxs;
                      assigned = replicate (unat tot) zeroFixup
                  in case assignLoop npage fixups (idxs, assigned) of
                       Inl e \<Rightarrow> Inl e
                     | Inr (idxs, assigned) \<Rightarrow>
                         let pgs = (if length (pages d) = 0 then replicate 4 0 else pages d)
                         in (case foldE (emitStep assigned) [0 ..< length idxs]
                                    (idxs, 0, pgs, records d) of
                               Inl e \<Rightarrow> Inl e
                             | Inr (idxs, pos, pgs, recs) \<Rightarrow>
                                 Inr (idxs, \<lparr>pages = pgs, records = recs\<rparr>)))"

subsection \<open>Data pages: \<open>pagedata\<close>\<close>

record pagedata =
  count :: uint32
  offset :: uint32
  data :: "byte list list"

text \<open>
  \<open>func (d *pagedata) write(data []byte) (first, count uint32)\<close>;
  \<open>zeropage[d.offset:]\<close> is the tail of a page of zero bytes.
\<close>

definition pagedata_write :: "pagedata \<Rightarrow> byte list \<Rightarrow> (uint32 \<times> uint32) \<times> pagedata" where
  "pagedata_write d bs =
     (let cnt = pagecount (of_nat (length bs))
      in if cnt \<noteq> 0
         then let first = count d + 1;
                  dat = (if offset d \<noteq> 0
                         then data d @ [replicate (unat pageSize - unat (offset d)) 0]
                         else data d);
                  dat = dat @ [bs]
              in ((first, cnt),
                  \<lparr>count = count d + cnt,
                   offset = of_nat (length bs) AND (pageSize - 1),
                   data = dat\<rparr>)
         else ((0, cnt), d))"

subsection \<open>The output blocks\<close>

record datawriter =
  pos :: uint32
  blocks :: "byte list list"

definition datawriter_write :: "datawriter \<Rightarrow> byte list \<Rightarrow> datawriter" where
  "datawriter_write w d = \<lparr>pos = pos w + of_nat (length d), blocks = blocks w @ [d]\<rparr>"

text \<open>The body of the loop over \<open>p.Objects\<close> in \<open>dumpBlocks\<close>.\<close>

definition objectStep ::
  "Object \<Rightarrow> objdata \<times> fixupdata \<times> pagedata \<Rightarrow> error + (objdata \<times> fixupdata \<times> pagedata)" where
  "objectStep obj st =
     (case st of (od, fd, pd) \<Rightarrow>
        (case pagedata_write pd (Data obj) of ((first, cnt), pd) \<Rightarrow>
           (case fixupdata_write fd (Size obj) (Fixups obj) of
              Inl e \<Rightarrow> Inl e
            | Inr (fixup, fd) \<Rightarrow> Inr (objdata_write od obj fixup first cnt, fd, pd))))"

text \<open>
  \<open>func (p *Program) dumpBlocks() [][]byte\<close>. The first block handed to the writer is
  the slice \<open>h[:]\<close>, which shares the array \<open>h\<close>: the offsets and sizes stored into
  \<open>h\<close> after that call are part of the block that is returned.
\<close>

definition dumpBlocks :: "Program \<Rightarrow> error + byte list list" where
  "dumpBlocks p =
     (case foldE objectStep (Objects p)
             (\<lparr>object = [], page = []\<rparr>, \<lparr>pages = [], records = []\<rparr>,
              \<lparr>count = 0, offset = 0, data = []\<rparr>) of
        Inl e \<Rightarrow> Inl e
      | Inr (od, fd, pd) \<Rightarrow>
          let h = replicate 0xac (0 :: byte);
              h = h[0 := 0x4c];
              h = h[1 := 0x45];
              h = PutUint16 h 0x08 2;
              h = PutUint32 h 0x14 (count pd);
              h = PutUint32 h 0x18 (Obj (Entry p));
              h = PutUint32 h 0x1c (Off (Entry p));
              h = PutUint32 h 0x20 (Obj (Stack p));
              h = PutUint32 h 0x24 (Off (Stack p));
              h = PutUint32 h 0x28 pageSize;
              h = PutUint32 h 0x2c (offset pd);
              h = PutUint32 h 0x44 (of_nat (length (Objects p)));
              d = \<lparr>pos = 0, blocks = []\<rparr>;
              d = datawriter_write d h;
              start = pos d;
              h = PutUint32 h 0x40 (pos d);
              d = datawriter_write d (object od);
              h = PutUint32 h 0x48 (pos d);
              d = datawriter_write d (page od);
              h = PutUint32 h 0x38 (pos d - start);
              start = pos d;
              h = PutUint32 h 0x68 (pos d);
              d = datawriter_write d (pages fd);
              h = PutUint32 h 0x6c (pos d);
              d = datawriter_write d (records fd);
              h = PutUint32 h 0x30 (pos d - start);
              h = PutUint32 h 0x80 (pos d);
              d = foldl datawriter_write d (data pd)
          in Inr ((blocks d)[0 := h]))"

subsection \<open>What the reader of the format expects (module/read.go)\<close>

text \<open>\<open>binary.LittleEndian.Uint32(b[off:])\<close>; it panics on fewer than four bytes.\<close>

definition Uint32 :: "byte list \<Rightarrow> nat \<Rightarrow> error + uint32" where
  "Uint32 b off =
     (if off + 4 \<le> length b
      then Inr (le32 (b ! off) (b ! (off + 1)) (b ! (off + 2)) (b ! (off + 3)))
      else Inl Panic)"

text \<open>
  \<open>readProgram\<close> refuses a header whose \<open>LastPageSize\<close>, the little-endian word at
  offset \<open>0x2c\<close>, is \<open>0\<close> or larger than the page size.
\<close>

definition lastPageSizeAccepted :: "uint32 \<Rightarrow> bool" where
  "lastPageSizeAccepted v = (\<not> (v = 0 \<or> pageSize < v))"

section \<open>The ELF front end\<close>

text \<open>
  The converter exists twice in the repository: in the root package (\<open>elf.go\<close>, entry
  point \<open>readExecutable\<close>, called by \<open>main.go\<close>) and in package \<open>elf\<close> (entry point
  \<open>ConvertToLELX\<close>). The two share \<open>addrRange\<close>, \<open>resolveAddr\<close>, the segment
  assigner and the section readers word for word; they differ in \<open>resolveSymbols\<close> and
  in one test of \<open>addRelocation\<close>. Shared functions are modelled once; of the others,
  the root package's carry the prefix \<open>main_\<close>.
\<close>

subsection \<open>What the ELF library provides\<close>

text \<open>
  \<open>debug/elf\<close> is outside the program. A parsed file is a value: program headers
  (\<open>elf.Prog\<close>: \<open>Type\<close>, \<open>Flags\<close>, \<open>Vaddr\<close>, \<open>Filesz\<close>, \<open>Memsz\<close>), sections
  (\<open>elf.Section\<close>: \<open>Type\<close>, \<open>Info\<close>, \<open>Addr\<close>) and symbols (\<open>elf.Symbol\<close>:
  \<open>Name\<close>, \<open>Value\<close>, \<open>Section\<close>), under the field names of the ELF format.
  \<open>p_content\<close> holds the bytes of the file that lie in the segment's extent: reading
  \<open>Filesz\<close> bytes fails when there are fewer. \<open>sh_data\<close> and \<open>symbols\<close> are \<open>None\<close>
  when \<open>Section.Data\<close> or \<open>File.Symbols\<close> returns an error.
\<close>

record Prog =
  p_type :: uint32
  p_flags :: uint32
  p_vaddr :: uint64
  p_filesz :: uint64
  p_memsz :: uint64
  p_content :: "byte list"

record Section =
  sh_type :: uint32
  sh_info :: uint32
  sh_addr :: uint64
  sh_data :: "byte list option"

record Symbol =
  st_name :: string
  st_value :: uint64
  st_shndx :: int

record Rel32 =
  r_offset :: uint32
  r_info :: uint32

record File =
  e_class :: byte
  e_data :: byte
  e_type :: uint16
  e_machine :: uint16
  e_entry :: uint64
  progs :: "Prog list"
  sections :: "Section list"
  symbols :: "Symbol list option"

definition PT_NULL :: uint32 where "PT_NULL = 0"
definition PT_LOAD :: uint32 where "PT_LOAD = 1"
definition PT_NOTE :: uint32 where "PT_NOTE = 4"
definition ptGNUEHFrame :: uint32 where "ptGNUEHFrame = 0x6474e551"
definition PF_X :: uint32 where "PF_X = 1"
definition PF_W :: uint32 where "PF_W = 2"
definition PF_R :: uint32 where "PF_R = 4"
definition SHT_RELA :: uint32 where "SHT_RELA = 4"
definition SHT_REL :: uint32 where "SHT_REL = 9"
definition SHN_ABS :: int where "SHN_ABS = 0xfff1"
definition R_386_32 :: uint32 where "R_386_32 = 1"
definition R_386_PC32 :: uint32 where "R_386_PC32 = 2"
definition ELFCLASS32 :: byte where "ELFCLASS32 = 1"
definition ELFDATA2LSB :: byte where "ELFDATA2LSB = 1"
definition ET_EXEC :: uint16 where "ET_EXEC = 2"
definition EM_386 :: uint16 where "EM_386 = 3"

subsection \<open>Address ranges and segments\<close>

record addrRange =
  addr :: uint32
  size' :: uint32

definition hasAddr :: "'a addrRange_scheme \<Rightarrow> uint32 \<Rightarrow> bool" where
  "hasAddr x a = (addr x \<le> a \<and> a \<le> addr x + size' x)"

definition overlaps :: "'a addrRange_scheme \<Rightarrow> 'b addrRange_scheme \<Rightarrow> bool" where
  "overlaps x y = (addr y < addr x + size' x \<and> addr x < addr y + size' y)"

definition contains :: "'a addrRange_scheme \<Rightarrow> 'b addrRange_scheme \<Rightarrow> bool" where
  "contains x y = (addr x \<le> addr y \<and> addr y + size' y \<le> addr x + size' x)"

text \<open>
  A segment embeds its address range. \<open>object'\<close> is the object the segment points to:
  each segment owns its own, so an update through the pointer is an update of the
  segment's entry in the list.
\<close>

record segment = addrRange +
  index :: nat
  object' :: Object

text \<open>\<open>resolveAddr\<close>: the first segment that has the address, \<open>i\<close> counting from 0.\<close>

fun resolveAddrFrom :: "nat \<Rightarrow> segment list \<Rightarrow> uint32 \<Rightarrow> Ref" where
  "resolveAddrFrom i [] a = \<lparr>Obj = 0, Off = 0\<rparr>"
| "resolveAddrFrom i (s # segs) a =
     (if hasAddr s a then \<lparr>Obj = of_nat (i + 1), Off = a - addr s\<rparr>
      else resolveAddrFrom (i + 1) segs a)"

definition resolveAddr :: "segment list \<Rightarrow> uint32 \<Rightarrow> Ref" where
  "resolveAddr segs a = resolveAddrFrom 0 segs a"

text \<open>A symbol: \<open>addr\<close>, the embedded reference and \<open>name\<close>.\<close>

record symbol =
  sym_addr :: uint32
  sym_ref :: Ref
  sym_name :: string

subsection \<open>Segment assignment\<close>

definition readLoadSegment :: "nat \<Rightarrow> Prog \<Rightarrow> error + segment" where
  "readLoadSegment i p =
     (let flags = Obj32Bit;
          flags = (if p_flags p AND PF_X \<noteq> 0 then flags OR ObjX else flags);
          flags = (if p_flags p AND PF_W \<noteq> 0 then flags OR ObjW else flags)
      in if p_flags p AND PF_R = 0 then Inl SegmentNotReadable
         else
           let flags = flags OR ObjR;
               knownFlags = PF_X OR PF_W OR PF_R;
               unknownFlags = p_flags p AND NOT knownFlags
           in if unknownFlags \<noteq> 0 then Inl (SegmentUnknownFlags unknownFlags)
              else
                let a = (ucast (p_vaddr p) :: uint32);
                    sz = (ucast (p_memsz p) :: uint32);
                    dsz = unat (p_filesz p)
                in if 0 < dsz \<and> length (p_content p) < dsz then Inl SegmentReadFailed
                   else Inr \<lparr>addr = a, size' = sz, index = i,
                             object' = \<lparr>Flags = flags, Size = sz, Addr = a,
                                         Data = take dsz (p_content p), Fixups = []\<rparr>\<rparr>)"

fun assignSegmentsFrom :: "nat \<Rightarrow> Prog list \<Rightarrow> segment list \<Rightarrow> error + segment list" where
  "assignSegmentsFrom i [] segments = Inr segments"
| "assignSegmentsFrom i (p # ps) segments =
     (if p_type p = PT_NULL \<or> p_type p = PT_NOTE \<or> p_type p = ptGNUEHFrame
      then assignSegmentsFrom (i + 1) ps segments
      else if p_type p = PT_LOAD
      then (case readLoadSegment i p of
              Inl e \<Rightarrow> Inl e
            | Inr seg \<Rightarrow> assignSegmentsFrom (i + 1) ps (segments @ [seg]))
      else Inl (SegmentTypeUnsupported (p_type p)))"

definition assignSegments :: "File \<Rightarrow> error + segment list" where
  "assignSegments f = assignSegmentsFrom 0 (progs f) []"

subsection \<open>Symbol resolution\<close>

text \<open>The root package resolves every symbol by its value.\<close>

definition main_resolveSymbols :: "File \<Rightarrow> segment list \<Rightarrow> error + symbol list" where
  "main_resolveSymbols f segs =
     (case symbols f of
        None \<Rightarrow> Inl SymbolsFailed
      | Some syms \<Rightarrow>
          Inr (map (\<lambda>sym. \<lparr>sym_addr = ucast (st_value sym),
                            sym_ref = resolveAddr segs (ucast (st_value sym)),
                            sym_name = st_name sym\<rparr>) syms))"

text \<open>
  Package \<open>elf\<close> resolves a symbol through its section. \<open>secObjects[i]\<close> is the
  \<open>index\<close> field of the first segment whose half-open range has the section's address,
  or \<open>-1\<close>; \<open>segs[obj]\<close> panics when that is no position of \<open>segs\<close>.
\<close>

definition objAbsolute :: int32 where
  "objAbsolute = drop_bit 1 (NOT 0)"

fun sectionObject :: "segment list \<Rightarrow> uint32 \<Rightarrow> int" where
  "sectionObject [] off = - 1"
| "sectionObject (seg # segs) off =
     (if addr seg \<le> off \<and> off < addr seg + size' seg then int (index seg)
      else sectionObject segs off)"

definition resolveSymbol :: "segment list \<Rightarrow> int list \<Rightarrow> Symbol \<Rightarrow> error + symbol" where
  "resolveSymbol segs secObjects esym =
     (if 0 \<le> st_shndx esym \<and> st_shndx esym < int (length secObjects)
      then let obj = secObjects ! nat (st_shndx esym)
           in if 0 \<le> obj \<and> obj < int (length segs)
              then let seg = segs ! nat obj
                   in Inr \<lparr>sym_addr = ucast (st_value esym),
                           sym_ref = \<lparr>Obj = of_int (obj + 1),
                                      Off = ucast (st_value esym) - addr seg\<rparr>,
                           sym_name = st_name esym\<rparr>
              else Inl Panic
      else if st_shndx esym = SHN_ABS
      then Inr \<lparr>sym_addr = ucast (st_value esym),
                sym_ref = \<lparr>Obj = objAbsolute, Off = 0\<rparr>,
                sym_name = st_name esym\<rparr>
      else Inl (SymbolInvalidSection (st_shndx esym)))"

fun resolveSymbolsLoop :: "segment list \<Rightarrow> int list \<Rightarrow> Symbol list \<Rightarrow> error + symbol list" where
  "resolveSymbolsLoop segs secObjects [] = Inr []"
| "resolveSymbolsLoop segs secObjects (esym # syms) =
     (case resolveSymbol segs secObjects esym of
        Inl e \<Rightarrow> Inl e
      | Inr osym \<Rightarrow>
          (case resolveSymbolsLoop segs secObjects syms of
             Inl e \<Rightarrow> Inl e
           | Inr osyms \<Rightarrow> Inr (osym # osyms)))"

definition resolveSymbols :: "File \<Rightarrow> segment list \<Rightarrow> error + symbol list" where
  "resolveSymbols f segs =
     (let secObjects = map (\<lambda>s. sectionObject segs (ucast (sh_addr s))) (sections f)
      in case symbols f of
           None \<Rightarrow> Inl SymbolsFailed
         | Some syms \<Rightarrow> resolveSymbolsLoop segs secObjects syms)"

subsection \<open>Relocation translation\<close>

text \<open>
  The search loop of \<open>addRelocation\<close>: the first segment that contains the four bytes
  at \<open>rel.Off\<close>, with its position.
\<close>

fun findSegment :: "nat \<Rightarrow> segment list \<Rightarrow> uint32 \<Rightarrow> (nat \<times> segment) option" where
  "findSegment i [] off = None"
| "findSegment i (s # segs) off =
     (if contains s \<lparr>addr = off, size' = 4\<rparr> then Some (i, s)
      else findSegment (i + 1) segs off)"

text \<open>
  \<open>binary.LittleEndian.Uint32(obj.Data[srcOff:])\<close> with \<open>srcOff\<close> an \<open>int32\<close>: slicing
  panics when \<open>srcOff\<close> is negative or beyond the data, reading when fewer than four
  bytes are left.
\<close>

definition readValue :: "byte list \<Rightarrow> int32 \<Rightarrow> error + uint32" where
  "readValue bs srcOff = (if srcOff <s 0 then Inl Panic else Uint32 bs (unat srcOff))"

text \<open>
  \<open>obj.Fixups = append(obj.Fixups, fixup)\<close> through the pointer \<open>seg.object\<close> of
  the segment found at position \<open>i\<close>.
\<close>

definition appendFixupTo :: "segment list \<Rightarrow> nat \<Rightarrow> Fixup \<Rightarrow> segment list" where
  "appendFixupTo segs i fx =
     segs[i := (segs ! i)\<lparr>object' :=
        (object' (segs ! i))\<lparr>Fixups := Fixups (object' (segs ! i)) @ [fx]\<rparr>\<rparr>]"

text \<open>
  \<open>addRelocation\<close> of package \<open>elf\<close>. \<open>syms[rsym-1]\<close> is in range by the test before
  it.
\<close>

definition addRelocation :: "Rel32 \<Rightarrow> segment list \<Rightarrow> symbol list \<Rightarrow> error + segment list" where
  "addRelocation rel segs syms =
     (case findSegment 0 segs (r_offset rel) of
        None \<Rightarrow> Inr segs
      | Some (i, seg) \<Rightarrow>
          let srcObj = (of_nat (i + 1) :: int32)
          in if srcObj = 0 then Inr segs
             else
               let rsym = drop_bit 8 (r_info rel)
               in if rsym = 0 \<or> of_nat (length syms) < rsym then Inl (SymbolOutOfBounds rsym)
                  else
                    let sy = syms ! unat (rsym - 1)
                    in if Obj (sym_ref sy) = 0 then Inl (UnresolvedSymbol (sym_name sy) rsym)
                       else if Obj (sym_ref sy) = objAbsolute then Inr segs
                       else
                         let obj = object' seg;
                             srcOff = r_offset rel - addr seg
                         in (case readValue (Data obj) srcOff of
                               Inl e \<Rightarrow> Inl e
                             | Inr val \<Rightarrow>
                                 let rtype = r_info rel AND 0xff
                                 in if rtype = R_386_32
                                    then Inr (appendFixupTo segs i
                                           \<lparr>SrcType = SrcOffset32, Src = srcOff,
                                            Target = \<lparr>Obj = Obj (sym_ref sy),
                                                       Off = Off (sym_ref sy) + (val - sym_addr sy)\<rparr>,
                                            Add = 0\<rparr>)
                                    else if rtype = R_386_PC32
                                    then if Obj (sym_ref sy) = srcObj then Inr segs
                                         else Inr (appendFixupTo segs i
                                                \<lparr>SrcType = SrcRelative32, Src = srcOff,
                                                 Target = \<lparr>Obj = Obj (sym_ref sy),
                                                            Off = Off (sym_ref sy) +
                                                              (val + r_offset rel + 4 - sym_addr sy)\<rparr>,
                                                 Add = 0\<rparr>)
                                    else Inl (UnsupportedRelocationType rtype)))"

text \<open>\<open>addRelocation\<close> of the root package: the same without the test for \<open>objAbsolute\<close>.\<close>

definition main_addRelocation :: "Rel32 \<Rightarrow> segment list \<Rightarrow> symbol list \<Rightarrow> error + segment list" where
  "main_addRelocation rel segs syms =
     (case findSegment 0 segs (r_offset rel) of
        None \<Rightarrow> Inr segs
      | Some (i, seg) \<Rightarrow>
          let srcObj = (of_nat (i + 1) :: int32)
          in if srcObj = 0 then Inr segs
             else
               let rsym = drop_bit 8 (r_info rel)
               in if rsym = 0 \<or> of_nat (length syms) < rsym then Inl (SymbolOutOfBounds rsym)
                  else
                    let sy = syms ! unat (rsym - 1)
                    in if Obj (sym_ref sy) = 0 then Inl (UnresolvedSymbol (sym_name sy) rsym)
                       else
                         let obj = object' seg;
                             srcOff = r_offset rel - addr seg
                         in (case readValue (Data obj) srcOff of
                               Inl e \<Rightarrow> Inl e
                             | Inr val \<Rightarrow>
                                 let rtype = r_info rel AND 0xff
                                 in if rtype = R_386_32
                                    then Inr (appendFixupTo segs i
                                           \<lparr>SrcType = SrcOffset32, Src = srcOff,
                                            Target = \<lparr>Obj = Obj (sym_ref sy),
                                                       Off = Off (sym_ref sy) + (val - sym_addr sy)\<rparr>,
                                            Add = 0\<rparr>)
                                    else if rtype = R_386_PC32
                                    then if Obj (sym_ref sy) = srcObj then Inr segs
                                         else Inr (appendFixupTo segs i
                                                \<lparr>SrcType = SrcRelative32, Src = srcOff,
                                                 Target = \<lparr>Obj = Obj (sym_ref sy),
                                                            Off = Off (sym_ref sy) +
                                                              (val + r_offset rel + 4 - sym_addr sy)\<rparr>,
                                                 Add = 0\<rparr>)
                                    else Inl (UnsupportedRelocationType rtype)))"

subsection \<open>Sections and the whole conversion\<close>

text \<open>
  The payload of a \<open>REL\<close> section, eight bytes to a relocation. The loop runs while
  bytes are left; the length is a multiple of eight when it starts.
\<close>

fun parseRels :: "byte list \<Rightarrow> Rel32 list" where
  "parseRels (a0 # a1 # a2 # a3 # b0 # b1 # b2 # b3 # rest) =
     \<lparr>r_offset = le32 a0 a1 a2 a3, r_info = le32 b0 b1 b2 b3\<rparr> # parseRels rest"
| "parseRels bs = []"

text \<open>
  \<open>readRelocationSection\<close> and \<open>readSections\<close> are the same text in both packages;
  \<open>add\<close> stands for the package's own \<open>addRelocation\<close>.
\<close>

type_synonym adder = "Rel32 \<Rightarrow> segment list \<Rightarrow> symbol list \<Rightarrow> error + segment list"

definition readRelocationSection ::
  "adder \<Rightarrow> Section \<Rightarrow> segment list \<Rightarrow> symbol list \<Rightarrow> error + segment list" where
  "readRelocationSection add s segs syms =
     (case sh_data s of
        None \<Rightarrow> Inl SectionDataFailed
      | Some bs \<Rightarrow>
          if sh_type s = SHT_REL
          then if (of_nat (length bs) :: uint64) AND 7 \<noteq> 0 then Inl RelLengthNotMultipleOf8
               else foldE (\<lambda>rel segs. add rel segs syms) (parseRels bs) segs
          else Inl (UnsupportedRelocationSectionType (sh_type s)))"

definition readSections ::
  "adder \<Rightarrow> File \<Rightarrow> segment list \<Rightarrow> symbol list \<Rightarrow> error + segment list" where
  "readSections add f segs syms =
     foldE (\<lambda>s segs.
              if sh_type s = SHT_REL \<or> sh_type s = SHT_RELA
              then if length (sections f) \<le> unat (sh_info s) then Inl RelocationSectionInvalid
                   else readRelocationSection add s segs syms
              else Inr segs)
       (sections f) segs"

text \<open>\<open>for _, sym := range syms { if sym.name == "_stack_end" { stack = sym.ref } }\<close>\<close>

definition findStack :: "symbol list \<Rightarrow> Ref" where
  "findStack syms =
     foldl (\<lambda>stack sy. if sym_name sy = ''_stack_end'' then sym_ref sy else stack)
       \<lparr>Obj = 0, Off = 0\<rparr> syms"

text \<open>
  The body of \<open>readExecutable\<close> and of \<open>ConvertToLELX\<close>, after the file is opened;
  \<open>resolve\<close> and \<open>add\<close> stand for the package's \<open>resolveSymbols\<close> and
  \<open>addRelocation\<close>.
\<close>

definition convert ::
  "(File \<Rightarrow> segment list \<Rightarrow> error + symbol list) \<Rightarrow> adder \<Rightarrow> File \<Rightarrow> error + Program" where
  "convert resolve add f =
     (if e_class f \<noteq> ELFCLASS32 then Inl WrongClass
      else if e_data f \<noteq> ELFDATA2LSB then Inl WrongData
      else if e_type f \<noteq> ET_EXEC then Inl WrongType
      else if e_machine f \<noteq> EM_386 then Inl WrongMachine
      else
        (case assignSegments f of
           Inl e \<Rightarrow> Inl e
         | Inr segs \<Rightarrow>
             let entry = resolveAddr segs (ucast (e_entry f))
             in if Obj entry = 0 then Inl (EntryUnresolved (e_entry f))
                else
                  (case resolve f segs of
                     Inl e \<Rightarrow> Inl e
                   | Inr syms \<Rightarrow>
                       let stack = findStack syms
                       in if Obj stack = 0 then Inl StackEndMissing
                          else
                            (case readSections add f segs syms of
                               Inl e \<Rightarrow> Inl e
                             | Inr segs \<Rightarrow>
                                 Inr \<lparr>Entry = entry, Stack = stack,
                                      Objects = map object' segs\<rparr>))))"

definition readExecutable :: "File \<Rightarrow> error + Program" where
  "readExecutable f = convert main_resolveSymbols main_addRelocation f"

definition ConvertToLELX :: "File \<Rightarrow> error + Program" where
  "ConvertToLELX f = convert resolveSymbols addRelocation f"

section \<open>Reading the serialized header back\<close>

text \<open>
  The little-endian word at offset \<open>off\<close> of the header, the first block that
  \<open>dumpBlocks\<close> returns.
\<close>

definition headerWord :: "Program \<Rightarrow> nat \<Rightarrow> error + uint32" where
  "headerWord p off =
     (case dumpBlocks p of
        Inl e \<Rightarrow> Inl e
      | Inr bl \<Rightarrow> (case bl of [] \<Rightarrow> Inl Panic | h # rest \<Rightarrow> Uint32 h off))"

text \<open>Block \<open>k\<close> of the output: 0 the header, 1 the object table, 2 the object page
  table, 3 the fixup page table, 4 the fixup records, from 5 on the data pages.\<close>

definition outputBlock :: "Program \<Rightarrow> nat \<Rightarrow> error + byte list" where
  "outputBlock p k =
     (case dumpBlocks p of
        Inl e \<Rightarrow> Inl e
      | Inr bl \<Rightarrow> if k < length bl then Inr (bl ! k) else Inl Panic)"

section \<open>Notions used to state and prove the properties\<close>

text \<open>
  The page both bucket passes put a fixup in: they test the one offset \<open>0\<close>, so it is
  the page of \<open>f.Src\<close> when that lies in \<open>[0, npage)\<close>, and none otherwise.
\<close>

definition pageIn :: "int32 \<Rightarrow> Fixup \<Rightarrow> nat option" where
  "pageIn npage f =
     (let pi = signed_drop_bit pageBits (Src f)
      in if - 1 <s pi \<and> pi <s npage then Some (nat (sint pi)) else None)"

text \<open>How many fixups of a list go to page \<open>p\<close>, and how many to a page before \<open>p\<close>.\<close>

definition onPage :: "int32 \<Rightarrow> Fixup list \<Rightarrow> nat \<Rightarrow> nat" where
  "onPage npage fs p = length (filter (\<lambda>f. pageIn npage f = Some p) fs)"

definition belowPage :: "int32 \<Rightarrow> Fixup list \<Rightarrow> nat \<Rightarrow> nat" where
  "belowPage npage fs p =
     length (filter (\<lambda>f. case pageIn npage f of None \<Rightarrow> False | Some q \<Rightarrow> q < p) fs)"

text \<open>The page count \<open>fixupdata.write\<close> settles on once some fixup has \<open>Src + 3 \<ge> 0\<close>.\<close>

definition pagesOf :: "uint32 \<Rightarrow> Fixup list \<Rightarrow> int32" where
  "pagesOf sz fixups =
     (let npage = pagecount sz;
          n = signed_drop_bit pageBits (maxOffLoop fixups) + 1
      in if npage <s n then n else npage)"

section \<open>The specification's account of page buckets\<close>

text \<open>
  The specification has a fixup at \<open>src\<close> touch the pages \<open>src >> 12\<close> and
  \<open>(src + 3) >> 12\<close>, and counts for an object the pages, out of its
  \<open>page_count(virtual_size)\<close>, that some fixup touches.
\<close>

definition spec_touchedPages :: "Fixup \<Rightarrow> int list" where
  "spec_touchedPages f = remdups [sint (Src f) div 4096, (sint (Src f) + 3) div 4096]"

definition spec_pagesWithFixups :: "Object \<Rightarrow> nat" where
  "spec_pagesWithFixups obj =
     length (filter (\<lambda>p. \<exists>f \<in> set (Fixups obj). int p \<in> set (spec_touchedPages f))
               [0 ..< unat (pagecount (Size obj))])"

section \<open>Concrete inputs\<close>

text \<open>Scenario S5 of the specification: an object of 8192 bytes with one fixup at 4094.\<close>

definition straddlingFixup :: Fixup where
  "straddlingFixup = \<lparr>SrcType = SrcOffset32, Src = 4094, Target = \<lparr>Obj = 1, Off = 0\<rparr>, Add = 0\<rparr>"

text \<open>A program of one object of two pages whose only fixup lies in the second page.\<close>

definition secondPageProgram :: Program where
  "secondPageProgram =
     \<lparr>Entry = \<lparr>Obj = 1, Off = 0\<rparr>, Stack = \<lparr>Obj = 1, Off = 8192\<rparr>,
      Objects = [\<lparr>Flags = 0x2007, Size = 8192, Addr = 0x10000, Data = [],
                  Fixups = [\<lparr>SrcType = SrcOffset32, Src = 4096,
                             Target = \<lparr>Obj = 1, Off = 0\<rparr>, Add = 0\<rparr>]\<rparr>]\<rparr>"

text \<open>A program whose only object has exactly one full page of data.\<close>

definition fullPageProgram :: Program where
  "fullPageProgram =
     \<lparr>Entry = \<lparr>Obj = 1, Off = 0\<rparr>, Stack = \<lparr>Obj = 1, Off = 4096\<rparr>,
      Objects = [\<lparr>Flags = 0x2005, Size = 4096, Addr = 0x10000,
                  Data = replicate 4096 0x90, Fixups = []\<rparr>]\<rparr>"

text \<open>Scenario S1 of the specification, as the program the conversion yields.\<close>

definition minimalProgram :: Program where
  "minimalProgram =
     \<lparr>Entry = \<lparr>Obj = 1, Off = 0\<rparr>, Stack = \<lparr>Obj = 1, Off = 64\<rparr>,
      Objects = [\<lparr>Flags = 0x2005, Size = 64, Addr = 0x10000,
                  Data = replicate 64 0x90, Fixups = []\<rparr>]\<rparr>"

section \<open>Notions about the relocation translator\<close>

text \<open>
  \<open>emitted rel segs syms i fx\<close>: the relocation lies in the segment at position \<open>i\<close>,
  the first that contains its four bytes, the value at its site can be read, its symbol
  is resolved, and \<open>fx\<close> is the fixup the table of relocation types gives for it (none
  for a \<open>R_386_PC32\<close> whose symbol lies in the object at \<open>i\<close>).
\<close>

definition emitted :: "Rel32 \<Rightarrow> segment list \<Rightarrow> symbol list \<Rightarrow> nat \<Rightarrow> Fixup \<Rightarrow> bool" where
  "emitted rel segs syms i fx =
     (case findSegment 0 segs (r_offset rel) of
        None \<Rightarrow> False
      | Some (j, seg) \<Rightarrow>
          j = i \<and>
          (case readValue (Data (object' seg)) (r_offset rel - addr seg) of
             Inl e \<Rightarrow> False
           | Inr val \<Rightarrow>
               let sy = syms ! unat (drop_bit 8 (r_info rel) - 1);
                   rtype = r_info rel AND 0xff
               in Obj (sym_ref sy) \<noteq> 0 \<and>
                  (if rtype = R_386_32
                   then fx = \<lparr>SrcType = SrcOffset32, Src = r_offset rel - addr seg,
                              Target = \<lparr>Obj = Obj (sym_ref sy),
                                         Off = Off (sym_ref sy) + (val - sym_addr sy)\<rparr>,
                              Add = 0\<rparr>
                   else rtype = R_386_PC32 \<and> Obj (sym_ref sy) \<noteq> of_nat (i + 1) \<and>
                        fx = \<lparr>SrcType = SrcRelative32, Src = r_offset rel - addr seg,
                              Target = \<lparr>Obj = Obj (sym_ref sy),
                                         Off = Off (sym_ref sy) +
                                           (val + r_offset rel + 4 - sym_addr sy)\<rparr>,
                              Add = 0\<rparr>)))"

text \<open>No object holds a self-relative fixup whose target is the object itself.\<close>

definition selfRelativeFree :: "Object list \<Rightarrow> bool" where
  "selfRelativeFree objs =
     (\<forall>i < length objs. \<forall>fx \<in> set (Fixups (objs ! i)).
        \<not> (SrcType fx = SrcRelative32 \<and> Obj (Target fx) = of_nat (i + 1)))"

section \<open>A concrete executable\<close>

text \<open>
  Scenarios S2 to S4 of the specification in one file: a text segment at \<open>0x10000\<close> and
  a data segment at \<open>0x20000\<close> of 16 bytes each; the symbols \<open>_stack_end\<close> at the end
  of the data segment, \<open>var\<close> at \<open>0x20004\<close> and \<open>fn\<close> at \<open>0x10008\<close>; in the text
  segment a \<open>R_386_32\<close> at \<open>0x10004\<close> and a \<open>R_386_PC32\<close> at \<open>0x10008\<close>, both
  against \<open>var\<close>, and a \<open>R_386_PC32\<close> at \<open>0x1000c\<close> against \<open>fn\<close>.
\<close>

definition twoSegmentFile :: File where
  "twoSegmentFile =
     \<lparr>e_class = 1, e_data = 1, e_type = 2, e_machine = 3, e_entry = 0x10000,
      progs =
        [\<lparr>p_type = 1, p_flags = 5, p_vaddr = 0x10000, p_filesz = 16, p_memsz = 16,
          p_content = [0x90, 0x90, 0x90, 0x90, 0x04, 0x00, 0x02, 0x00,
                       0xf8, 0xff, 0x00, 0x00, 0xf8, 0xff, 0xff, 0xff]\<rparr>,
         \<lparr>p_type = 1, p_flags = 6, p_vaddr = 0x20000, p_filesz = 16, p_memsz = 16,
          p_content = replicate 16 0\<rparr>],
      sections =
        [\<lparr>sh_type = 0, sh_info = 0, sh_addr = 0, sh_data = Some []\<rparr>,
         \<lparr>sh_type = 1, sh_info = 0, sh_addr = 0x10000, sh_data = Some []\<rparr>,
         \<lparr>sh_type = 1, sh_info = 0, sh_addr = 0x20000, sh_data = Some []\<rparr>,
         \<lparr>sh_type = 9, sh_info = 1, sh_addr = 0,
          sh_data = Some [0x04, 0x00, 0x01, 0x00, 0x01, 0x02, 0x00, 0x00,
                          0x08, 0x00, 0x01, 0x00, 0x02, 0x02, 0x00, 0x00,
                          0x0c, 0x00, 0x01, 0x00, 0x02, 0x03, 0x00, 0x00]\<rparr>],
      symbols =
        Some [\<lparr>st_name = ''_stack_end'', st_value = 0x20010, st_shndx = 2\<rparr>,
              \<lparr>st_name = ''var'', st_value = 0x20004, st_shndx = 2\<rparr>,
              \<lparr>st_name = ''fn'', st_value = 0x10008, st_shndx = 1\<rparr>]\<rparr>"

text \<open>Its segments and symbols as both converters resolve them, and the result.\<close>

definition twoSegments :: "segment list" where
  "twoSegments =
     [\<lparr>addr = 0x10000, size' = 16, index = 0,
       object' = \<lparr>Flags = 0x2005, Size = 16, Addr = 0x10000,
                   Data = [0x90, 0x90, 0x90, 0x90, 0x04, 0x00, 0x02, 0x00,
                           0xf8, 0xff, 0x00, 0x00, 0xf8, 0xff, 0xff, 0xff],
                   Fixups = []\<rparr>\<rparr>,
      \<lparr>addr = 0x20000, size' = 16, index = 1,
       object' = \<lparr>Flags = 0x2003, Size = 16, Addr = 0x20000,
                   Data = replicate 16 0, Fixups = []\<rparr>\<rparr>]"

definition twoSegmentSymbols :: "symbol list" where
  "twoSegmentSymbols =
     [\<lparr>sym_addr = 0x20010, sym_ref = \<lparr>Obj = 2, Off = 16\<rparr>, sym_name = ''_stack_end''\<rparr>,
      \<lparr>sym_addr = 0x20004, sym_ref = \<lparr>Obj = 2, Off = 4\<rparr>, sym_name = ''var''\<rparr>,
      \<lparr>sym_addr = 0x10008, sym_ref = \<lparr>Obj = 1, Off = 8\<rparr>, sym_name = ''fn''\<rparr>]"

definition twoSegmentProgram :: Program where
  "twoSegmentProgram =
     \<lparr>Entry = \<lparr>Obj = 1, Off = 0\<rparr>, Stack = \<lparr>Obj = 2, Off = 16\<rparr>,
      Objects =
        [\<lparr>Flags = 0x2005, Size = 16, Addr = 0x10000,
          Data = [0x90, 0x90, 0x90, 0x90, 0x04, 0x00, 0x02, 0x00,
                  0xf8, 0xff, 0x00, 0x00, 0xf8, 0xff, 0xff, 0xff],
          Fixups = [\<lparr>SrcType = 7, Src = 4, Target = \<lparr>Obj = 2, Off = 4\<rparr>, Add = 0\<rparr>,
                    \<lparr>SrcType = 8, Src = 8, Target = \<lparr>Obj = 2, Off = 4\<rparr>, Add = 0\<rparr>]\<rparr>,
         \<lparr>Flags = 0x2003, Size = 16, Addr = 0x20000, Data = replicate 16 0, Fixups = []\<rparr>]\<rparr>"

text \<open>The segments of \<open>twoSegmentFile\<close> once its relocations are translated.\<close>

definition twoSegmentsTranslated :: "segment list" where
  "twoSegmentsTranslated =
     [\<lparr>addr = 0x10000, size' = 16, index = 0,
       object' = \<lparr>Flags = 0x2005, Size = 16, Addr = 0x10000,
                   Data = [0x90, 0x90, 0x90, 0x90, 0x04, 0x00, 0x02, 0x00,
                           0xf8, 0xff, 0x00, 0x00, 0xf8, 0xff, 0xff, 0xff],
                   Fixups = [\<lparr>SrcType = 7, Src = 4, Target = \<lparr>Obj = 2, Off = 4\<rparr>, Add = 0\<rparr>,
                             \<lparr>SrcType = 8, Src = 8, Target = \<lparr>Obj = 2, Off = 4\<rparr>, Add = 0\<rparr>]\<rparr>\<rparr>,
      \<lparr>addr = 0x20000, size' = 16, index = 1,
       object' = \<lparr>Flags = 0x2003, Size = 16, Addr = 0x20000,
                   Data = replicate 16 0, Fixups = []\<rparr>\<rparr>]"

text \<open>
  Every fixup of every object lies in the object's data with all four bytes, at a
  non-negative offset.
\<close>

definition fixupsInsideData :: "Object list \<Rightarrow> bool" where
  "fixupsInsideData objs =
     (\<forall>obj \<in> set objs. \<forall>fx \<in> set (Fixups obj).
        0 \<le> sint (Src fx) \<and> sint (Src fx) + 4 \<le> int (length (Data obj)))"

section \<open>Further concrete executables\<close>

text \<open>
  A segment of four bytes in memory at \<open>0xfffffff0\<close> with sixteen bytes in the file, and
  a \<open>R_386_32\<close> relocation at \<open>0xfffffffc\<close>, whose four bytes end at the top of the
  address space.
\<close>

definition wrappingFile :: File where
  "wrappingFile =
     \<lparr>e_class = 1, e_data = 1, e_type = 2, e_machine = 3, e_entry = 0xfffffff0,
      progs =
        [\<lparr>p_type = 1, p_flags = 5, p_vaddr = 0xfffffff0, p_filesz = 16, p_memsz = 4,
          p_content = [0x90, 0x90, 0x90, 0x90, 0, 0, 0, 0, 0, 0, 0, 0,
                       0xf0, 0xff, 0xff, 0xff]\<rparr>],
      sections =
        [\<lparr>sh_type = 0, sh_info = 0, sh_addr = 0, sh_data = Some []\<rparr>,
         \<lparr>sh_type = 1, sh_info = 0, sh_addr = 0xfffffff0, sh_data = Some []\<rparr>,
         \<lparr>sh_type = 9, sh_info = 1, sh_addr = 0,
          sh_data = Some [0xfc, 0xff, 0xff, 0xff, 0x01, 0x01, 0x00, 0x00]\<rparr>],
      symbols = Some [\<lparr>st_name = ''_stack_end'', st_value = 0xfffffff0, st_shndx = 1\<rparr>]\<rparr>"

definition wrappingProgram :: Program where
  "wrappingProgram =
     \<lparr>Entry = \<lparr>Obj = 1, Off = 0\<rparr>, Stack = \<lparr>Obj = 1, Off = 0\<rparr>,
      Objects =
        [\<lparr>Flags = 0x2005, Size = 4, Addr = 0xfffffff0,
          Data = [0x90, 0x90, 0x90, 0x90, 0, 0, 0, 0, 0, 0, 0, 0, 0xf0, 0xff, 0xff, 0xff],
          Fixups = [\<lparr>SrcType = 7, Src = 12, Target = \<lparr>Obj = 1, Off = 0\<rparr>, Add = 0\<rparr>]\<rparr>]\<rparr>"

text \<open>
  Two segments listed with the higher address first; \<open>_stack_end\<close> has the value
  \<open>0x11000\<close>, the base \<open>0x10000\<close> of the second segment plus its size \<open>0x1000\<close>,
  which is also the base of the first.
\<close>

definition descendingFile :: File where
  "descendingFile =
     \<lparr>e_class = 1, e_data = 1, e_type = 2, e_machine = 3, e_entry = 0x10000,
      progs =
        [\<lparr>p_type = 1, p_flags = 6, p_vaddr = 0x11000, p_filesz = 4, p_memsz = 0x1000,
          p_content = [1, 2, 3, 4]\<rparr>,
         \<lparr>p_type = 1, p_flags = 5, p_vaddr = 0x10000, p_filesz = 4, p_memsz = 0x1000,
          p_content = [0x90, 0x90, 0x90, 0x90]\<rparr>],
      sections =
        [\<lparr>sh_type = 0, sh_info = 0, sh_addr = 0, sh_data = Some []\<rparr>,
         \<lparr>sh_type = 1, sh_info = 0, sh_addr = 0x11000, sh_data = Some []\<rparr>,
         \<lparr>sh_type = 1, sh_info = 0, sh_addr = 0x10000, sh_data = Some []\<rparr>],
      symbols = Some [\<lparr>st_name = ''_stack_end'', st_value = 0x11000, st_shndx = 2\<rparr>]\<rparr>"

definition descendingProgram :: Program where
  "descendingProgram =
     \<lparr>Entry = \<lparr>Obj = 2, Off = 0\<rparr>, Stack = \<lparr>Obj = 1, Off = 0\<rparr>,
      Objects =
        [\<lparr>Flags = 0x2003, Size = 0x1000, Addr = 0x11000, Data = [1, 2, 3, 4], Fixups = []\<rparr>,
         \<lparr>Flags = 0x2005, Size = 0x1000, Addr = 0x10000,
          Data = [0x90, 0x90, 0x90, 0x90], Fixups = []\<rparr>]\<rparr>"

text \<open>
  One segment and an absolute symbol \<open>abs\<close> of value \<open>0x1234\<close>, outside the segment, to
  which a \<open>R_386_32\<close> relocation at \<open>0x10004\<close> refers.
\<close>

definition absoluteFile :: File where
  "absoluteFile =
     \<lparr>e_class = 1, e_data = 1, e_type = 2, e_machine = 3, e_entry = 0x10000,
      progs =
        [\<lparr>p_type = 1, p_flags = 5, p_vaddr = 0x10000, p_filesz = 8, p_memsz = 8,
          p_content = [0x90, 0x90, 0x90, 0x90, 0x34, 0x12, 0x00, 0x00]\<rparr>],
      sections =
        [\<lparr>sh_type = 0, sh_info = 0, sh_addr = 0, sh_data = Some []\<rparr>,
         \<lparr>sh_type = 1, sh_info = 0, sh_addr = 0x10000, sh_data = Some []\<rparr>,
         \<lparr>sh_type = 9, sh_info = 1, sh_addr = 0,
          sh_data = Some [0x04, 0x00, 0x01, 0x00, 0x01, 0x02, 0x00, 0x00]\<rparr>],
      symbols =
        Some [\<lparr>st_name = ''_stack_end'', st_value = 0x10008, st_shndx = 1\<rparr>,
              \<lparr>st_name = ''abs'', st_value = 0x1234, st_shndx = 0xfff1\<rparr>]\<rparr>"

definition absoluteProgram :: Program where
  "absoluteProgram =
     \<lparr>Entry = \<lparr>Obj = 1, Off = 0\<rparr>, Stack = \<lparr>Obj = 1, Off = 8\<rparr>,
      Objects =
        [\<lparr>Flags = 0x2005, Size = 8, Addr = 0x10000,
          Data = [0x90, 0x90, 0x90, 0x90, 0x34, 0x12, 0x00, 0x00], Fixups = []\<rparr>]\<rparr>"

section \<open>Basic facts about the serializer\<close>

lemma offsets_count: "offsets 0 3 3 = [0]"
  by (simp add: offsets.simps)

lemma offsets_assign: "offsets 0 4 4 = [0]"
  by (simp add: offsets.simps)

lemma maxOffLoop_Nil: "maxOffLoop [] = - 1"
  by (simp add: maxOffLoop_def)

lemma fixupdata_write_Nil: "fixupdata_write d sz [] = Inr ([], d)"
  by (simp add: fixupdata_write_def maxOffLoop_Nil Let_def)

lemma appendFixup_bytes:
  "appendFixup f bs =
     bs @ [ucast (SrcType f), (if 0x7fff <s Off (Target f) then 0x10 else 0),
           ucast (ucast (Src f) :: uint16), ucast (drop_bit 8 (ucast (Src f) :: uint16)),
           ucast (Obj (Target f))]
        @ (if 0x7fff <s Off (Target f)
           then [ucast (Off (Target f)), ucast (drop_bit 8 (Off (Target f))),
                 ucast (drop_bit 16 (Off (Target f))), ucast (drop_bit 24 (Off (Target f)))]
           else [ucast (ucast (Off (Target f)) :: uint16),
                 ucast (drop_bit 8 (ucast (Off (Target f)) :: uint16))])"
  by (simp add: appendFixup_def PutUint16_def PutUint32_def Let_def numeral_eq_Suc)

lemma negative_not_above_7fff: "(x :: int32) <s 0 \<Longrightarrow> \<not> 0x7fff <s x"
  by (simp add: word_sless_alt)

lemma negative_loses_sign:
  assumes "(x :: int32) <s 0"
  shows "(ucast (ucast x :: uint16) :: int32) \<noteq> x"
proof
  assume eq: "(ucast (ucast x :: uint16) :: int32) = x"
  have "\<not> bit (ucast (ucast x :: uint16) :: int32) 31"
    by (simp add: bit_simps)
  moreover have "bit x 31"
    using assms bit_last_iff [of x] by (simp add: word_sless_alt)
  ultimately show False
    using eq by simp
qed

section \<open>Fixup record encoding\<close>

text \<open>
  Claim C10. \<open>appendFixup\<close> sets flag \<open>0x10\<close> and writes the nine-byte long form
  exactly when the target offset is greater than \<open>0x7fff\<close> as a signed 32-bit value;
  otherwise the flag byte is \<open>0\<close> and the record has seven bytes, the last two being
  the low 16 bits of the offset. A negative offset is never above \<open>0x7fff\<close>, so it
  takes the short form, and the 16 bits that are kept, read back without sign as the reader
  does, differ from the offset: the sign is lost.
\<close>
theorem appendFixup_long_form_only_above_0x7fff:
  "(0x7fff <s Off (Target f) \<longrightarrow>
      length (appendFixup f bs) = length bs + 9 \<and>
      appendFixup f bs ! (length bs + 1) = 0x10 \<and>
      drop (length bs + 5) (appendFixup f bs) =
        [ucast (Off (Target f)), ucast (drop_bit 8 (Off (Target f))),
         ucast (drop_bit 16 (Off (Target f))), ucast (drop_bit 24 (Off (Target f)))]) \<and>
   (\<not> 0x7fff <s Off (Target f) \<longrightarrow>
      length (appendFixup f bs) = length bs + 7 \<and>
      appendFixup f bs ! (length bs + 1) = 0 \<and>
      drop (length bs + 5) (appendFixup f bs) =
        [ucast (ucast (Off (Target f)) :: uint16),
         ucast (drop_bit 8 (ucast (Off (Target f)) :: uint16))]) \<and>
   (Off (Target f) <s 0 \<longrightarrow>
      \<not> 0x7fff <s Off (Target f) \<and>
      (ucast (ucast (Off (Target f)) :: uint16) :: int32) \<noteq> Off (Target f))"
  by (simp add: appendFixup_bytes nth_append negative_not_above_7fff negative_loses_sign)

text \<open>A record for the offset \<open>-4\<close> and one for \<open>0x8000\<close>.\<close>
theorem appendFixup_long_form_only_above_0x7fff_witness:
  "(- 4 :: int32) <s 0 \<and> \<not> 0x7fff <s (- 4 :: int32) \<and>
   appendFixup \<lparr>SrcType = 7, Src = 16, Target = \<lparr>Obj = 2, Off = - 4\<rparr>, Add = 0\<rparr> [] =
     [7, 0, 16, 0, 2, 0xfc, 0xff] \<and>
   (0x7fff :: int32) <s 0x8000 \<and>
   appendFixup \<lparr>SrcType = 7, Src = 16, Target = \<lparr>Obj = 2, Off = 0x8000\<rparr>, Add = 0\<rparr> [] =
     [7, 0x10, 16, 0, 2, 0, 0x80, 0, 0]"
  using appendFixup_long_form_only_above_0x7fff
          [of "\<lparr>SrcType = 7, Src = 16, Target = \<lparr>Obj = 2, Off = - 4\<rparr>, Add = 0\<rparr>" "[]"]
        appendFixup_long_form_only_above_0x7fff
          [of "\<lparr>SrcType = 7, Src = 16, Target = \<lparr>Obj = 2, Off = 0x8000\<rparr>, Add = 0\<rparr>" "[]"]
  by (simp add: appendFixup_bytes word_sless_alt)

section \<open>The bucket passes of \<open>fixupdata.write\<close> never fail\<close>

lemma pageIn_less: "pageIn npage f = Some q \<Longrightarrow> q < nat (sint npage)"
  by (auto simp: pageIn_def Let_def word_sless_alt split: if_splits)

lemma countStep_pageIn:
  "countStep npage f 0 idxs =
     (case pageIn npage f of None \<Rightarrow> idxs | Some q \<Rightarrow> idxs[q := idxs ! q + 1])"
  by (simp add: countStep_def pageIn_def Let_def)

lemma onPage_Nil: "onPage npage [] p = 0"
  by (simp add: onPage_def)

lemma belowPage_Nil: "belowPage npage [] p = 0"
  by (simp add: belowPage_def)

lemma onPage_Cons:
  "onPage npage (f # fs) p = (if pageIn npage f = Some p then 1 else 0) + onPage npage fs p"
  by (simp add: onPage_def)

lemma belowPage_Cons:
  "belowPage npage (f # fs) p =
     (case pageIn npage f of None \<Rightarrow> 0 | Some q \<Rightarrow> if q < p then 1 else 0) + belowPage npage fs p"
  by (simp add: belowPage_def split: option.splits)

lemma belowPage_Suc: "belowPage npage fs (Suc p) = belowPage npage fs p + onPage npage fs p"
  by (induction fs) (auto simp: onPage_Nil belowPage_Nil onPage_Cons belowPage_Cons split: option.splits)

lemma belowPage_le_length: "belowPage npage fs p \<le> length fs"
  by (simp add: belowPage_def)

lemma belowPage_0: "belowPage npage fs 0 = 0"
  by (simp add: belowPage_def split: option.splits)

lemma belowPage_mono: "p \<le> q \<Longrightarrow> belowPage npage fs p \<le> belowPage npage fs q"
  by (induction fs) (auto simp: belowPage_Nil belowPage_Cons split: option.splits)

lemma onPage_append: "onPage npage (fs @ gs) p = onPage npage fs p + onPage npage gs p"
  by (simp add: onPage_def)

lemma length_countLoop: "length (countLoop npage fs idxs) = length idxs"
  by (induction fs arbitrary: idxs)
     (simp_all add: countLoop_def offsets_count countStep_pageIn split: option.splits)

lemma countLoop_nth:
  "length idxs = nat (sint npage) \<Longrightarrow> p < length idxs \<Longrightarrow>
   countLoop npage fs idxs ! p = idxs ! p + of_nat (onPage npage fs p)"
proof (induction fs arbitrary: idxs)
  case Nil
  then show ?case by (simp add: countLoop_def onPage_def)
next
  case (Cons f fs)
  let ?idxs = "countStep npage f 0 idxs"
  have len: "length ?idxs = nat (sint npage)"
    using Cons.prems by (simp add: countStep_pageIn split: option.splits)
  have step: "countLoop npage (f # fs) idxs = countLoop npage fs ?idxs"
    by (simp add: countLoop_def offsets_count)
  have "?idxs ! p = idxs ! p + (if pageIn npage f = Some p then 1 else 0)"
    using Cons.prems by (auto simp: countStep_pageIn split: option.splits)
  then show ?case
    using Cons.IH [of ?idxs] len Cons.prems by (simp add: step onPage_Cons)
qed


lemma prefixLoop_props:
  "prefixLoop tot ns = (r, t) \<Longrightarrow>
   length r = length ns \<and> t = tot + sum_list ns \<and>
   (\<forall>i < length ns. r ! i = tot + sum_list (take i ns))"
proof (induction ns arbitrary: tot r t)
  case Nil
  then show ?case by simp
next
  case (Cons n ns)
  obtain r' t' where rec: "prefixLoop (tot + n) ns = (r', t')"
    by (cases "prefixLoop (tot + n) ns")
  with Cons.prems have r: "r = tot # r'" and t: "t = t'"
    by simp_all
  from Cons.IH [OF rec] have ih:
    "length r' = length ns" "t' = tot + n + sum_list ns"
    "\<forall>i < length ns. r' ! i = tot + n + sum_list (take i ns)"
    by simp_all
  show ?case
  proof (intro conjI allI impI)
    show "length r = length (n # ns)" using r ih by simp
    show "t = tot + sum_list (n # ns)" using t ih by (simp add: add.assoc)
    fix i assume "i < length (n # ns)"
    then show "r ! i = tot + sum_list (take i (n # ns))"
      using r ih by (cases i) (simp_all add: add.assoc)
  qed
qed

lemma sum_take_counts:
  fixes ns :: "uint32 list"
  assumes "\<forall>q < length ns. ns ! q = of_nat (onPage npage fs q)" and "i \<le> length ns"
  shows "sum_list (take i ns) = of_nat (belowPage npage fs i)"
  using assms(2)
proof (induction i)
  case 0
  then show ?case by (simp add: belowPage_0)
next
  case (Suc i)
  then have "i < length ns" by simp
  then have "take (Suc i) ns = take i ns @ [ns ! i]"
    by (simp add: take_Suc_conv_app_nth)
  with Suc assms(1) show ?case
    by (simp add: belowPage_Suc)
qed


lemma foldE_single: "foldE g [x] st = g x st"
  by (cases "g x st") simp_all

lemma assignStep_pageIn:
  "assignStep npage f 0 (idxs, assigned) =
     (case pageIn npage f of
        None \<Rightarrow> Inr (idxs, assigned)
      | Some q \<Rightarrow>
          if unat (idxs ! q) < length assigned
          then Inr (idxs[q := idxs ! q + 1], assigned[unat (idxs ! q) := f])
          else Inl Panic)"
  by (simp add: assignStep_def pageIn_def Let_def)

lemma assignLoop_Nil: "assignLoop npage [] st = Inr st"
  by (simp add: assignLoop_def)

lemma assignLoop_Cons:
  "assignLoop npage (f # fs) st =
     (case assignStep npage f 0 st of Inl e \<Rightarrow> Inl e | Inr st' \<Rightarrow> assignLoop npage fs st')"
  by (cases "assignStep npage f 0 st") (simp_all add: assignLoop_def offsets_assign)

lemma unat_of_nat32: "n < 2 ^ 32 \<Longrightarrow> unat (of_nat n :: uint32) = n"
  by (simp add: unat_of_nat)

lemma assignLoop_ok:
  assumes "length (dn @ rest) < 2 ^ 32"
    and "length idxs = nat (sint npage)"
    and "length assigned = belowPage npage (dn @ rest) (nat (sint npage))"
    and "\<forall>p < nat (sint npage).
           idxs ! p = of_nat (belowPage npage (dn @ rest) p + onPage npage dn p)"
  shows "\<exists>idxs' assigned'.
           assignLoop npage rest (idxs, assigned) = Inr (idxs', assigned') \<and>
           length idxs' = nat (sint npage) \<and> length assigned' = length assigned \<and>
           (\<forall>p < nat (sint npage). idxs' ! p = of_nat (belowPage npage (dn @ rest) (Suc p)))"
  using assms
proof (induction rest arbitrary: dn idxs assigned)
  case Nil
  then show ?case
    by (simp add: assignLoop_Nil belowPage_Suc)
next
  case (Cons f rest)
  let ?fs = "dn @ f # rest"
  let ?N = "nat (sint npage)"
  have fs: "(dn @ [f]) @ rest = ?fs" by simp
  show ?case
  proof (cases "pageIn npage f")
    case None
    have inv: "\<forall>p < ?N. idxs ! p = of_nat (belowPage npage ((dn @ [f]) @ rest) p + onPage npage (dn @ [f]) p)"
      using Cons.prems(4) None by (simp add: onPage_append onPage_Cons onPage_Nil)
    from Cons.IH [of "dn @ [f]" idxs assigned] Cons.prems inv
    show ?thesis
      by (simp add: assignLoop_Cons assignStep_pageIn None)
  next
    case (Some q)
    then have q: "q < ?N" by (rule pageIn_less)
    let ?x = "belowPage npage ?fs q + onPage npage dn q"
    have idx: "idxs ! q = of_nat ?x"
      using Cons.prems(4) q by simp
    have "onPage npage ?fs q = onPage npage dn q + 1 + onPage npage rest q"
      using Some by (simp add: onPage_append onPage_Cons)
    then have "?x < belowPage npage ?fs (Suc q)"
      by (simp add: belowPage_Suc)
    also have "\<dots> \<le> belowPage npage ?fs ?N"
      using q by (intro belowPage_mono) simp
    finally have lt: "?x < length assigned"
      using Cons.prems(3) by simp
    have "length assigned \<le> length ?fs"
      using Cons.prems(3) belowPage_le_length [of npage ?fs ?N] by simp
    with lt Cons.prems(1) have xlt: "?x < 2 ^ 32" by simp
    have un: "unat (idxs ! q) = ?x"
      unfolding idx by (rule unat_of_nat32 [OF xlt])
    let ?idxs = "idxs[q := idxs ! q + 1]"
    let ?asg = "assigned[unat (idxs ! q) := f]"
    have step: "assignStep npage f 0 (idxs, assigned) = Inr (?idxs, ?asg)"
      using lt un by (simp add: assignStep_pageIn Some)
    have inv: "\<forall>p < ?N. ?idxs ! p =
                 of_nat (belowPage npage ((dn @ [f]) @ rest) p + onPage npage (dn @ [f]) p)"
    proof (intro allI impI)
      fix p assume p: "p < ?N"
      show "?idxs ! p = of_nat (belowPage npage ((dn @ [f]) @ rest) p + onPage npage (dn @ [f]) p)"
      proof (cases "p = q")
        case True
        then show ?thesis
          using Cons.prems(2) q idx Some
          by (simp add: onPage_append onPage_Cons onPage_Nil)
      next
        case False
        then show ?thesis
          using Cons.prems(2,4) p Some
          by (simp add: onPage_append onPage_Cons onPage_Nil)
      qed
    qed
    from Cons.IH [of "dn @ [f]" ?idxs ?asg] Cons.prems inv
    show ?thesis
      by (simp add: assignLoop_Cons step)
  qed
qed


lemma emitStep_length:
  "emitStep assigned k (idxs, po, pgs, recs) = Inr (idxs', po', pgs', recs') \<Longrightarrow>
   length idxs' = length idxs \<and> po' = idxs ! k \<and> length pgs' = length pgs + 4 \<and>
   (\<forall>p. p \<noteq> k \<longrightarrow> idxs' ! p = idxs ! p) \<and>
   (k < length idxs \<longrightarrow> idxs' ! k = of_nat (length pgs div 4))"
  by (auto simp: emitStep_def Let_def PutUint32_def split: if_splits)

lemma emitStep_ok:
  "unat po \<le> unat (idxs ! k) \<Longrightarrow> unat (idxs ! k) \<le> length assigned \<Longrightarrow>
   \<exists>st'. emitStep assigned k (idxs, po, pgs, recs) = Inr st'"
  by (simp add: emitStep_def Let_def)

lemma emitLoop_ok:
  assumes "length idxs = N" and "k \<le> N"
    and "\<forall>p. k \<le> p \<and> p < N \<longrightarrow> idxs ! p = of_nat (b (Suc p))"
    and "po = of_nat (b k)"
    and "\<forall>p q. p \<le> q \<longrightarrow> b p \<le> b q"
    and "b N = length assigned" and "b N < 2 ^ 32"
  shows "\<exists>idxs' po' pgs' recs'.
           foldE (emitStep assigned) [k ..< N] (idxs, po, pgs, recs) = Inr (idxs', po', pgs', recs') \<and>
           length idxs' = N \<and> length pgs' = length pgs + 4 * (N - k)"
  using assms
proof (induction "N - k" arbitrary: k idxs po pgs recs)
  case 0
  then show ?case by simp
next
  case (Suc n)
  then have k: "k < N" by simp
  then have upt: "[k ..< N] = k # [Suc k ..< N]"
    by (simp add: upt_conv_Cons)
  have bk: "b k \<le> b (Suc k)" and bS: "b (Suc k) \<le> b N"
    using Suc.prems(5) k by simp_all
  have idx: "idxs ! k = of_nat (b (Suc k))"
    using Suc.prems(3) k by simp
  have u1: "unat po = b k"
    using Suc.prems(4,7) bk bS by (simp add: unat_of_nat32)
  have u2: "unat (idxs ! k) = b (Suc k)"
    using idx Suc.prems(7) bS by (simp add: unat_of_nat32)
  obtain st' where st': "emitStep assigned k (idxs, po, pgs, recs) = Inr st'"
    using emitStep_ok [of po idxs k assigned pgs recs] u1 u2 bk bS Suc.prems(6) by auto
  obtain idxs1 po1 pgs1 recs1 where st1: "st' = (idxs1, po1, pgs1, recs1)"
    by (cases st') auto
  note props = emitStep_length [OF st' [unfolded st1]]
  have inv: "\<forall>p. Suc k \<le> p \<and> p < N \<longrightarrow> idxs1 ! p = of_nat (b (Suc p))"
    using props Suc.prems(3) by auto
  have "n = N - Suc k" using Suc.hyps(2) by simp
  from Suc.hyps(1) [OF this, of idxs1 po1 pgs1 recs1] props Suc.prems inv idx k
  obtain idxs' po' pgs' recs' where
    "foldE (emitStep assigned) [Suc k ..< N] (idxs1, po1, pgs1, recs1) = Inr (idxs', po', pgs', recs')"
    "length idxs' = N" "length pgs' = length pgs1 + 4 * (N - Suc k)"
    by auto
  then show ?case
    using st' st1 props k by (simp add: upt)
qed


lemma pagesOf_bounds:
  assumes "\<not> maxOffLoop fs <s 0"
  shows "0 < sint (pagesOf sz fs)"
    and "sint (signed_drop_bit pageBits (maxOffLoop fs)) < sint (pagesOf sz fs)"
proof -
  let ?m = "maxOffLoop fs"
  let ?x = "signed_drop_bit pageBits ?m"
  have m0: "0 \<le> sint ?m"
    using assms by (simp add: word_sless_alt)
  have mlt: "sint ?m < 2 ^ 31"
    using sint_lt [of ?m] by simp
  have sx: "sint ?x = sint ?m div 2 ^ 12"
    by (simp add: sint_signed_drop_bit_eq pageBits_def drop_bit_eq_div)
  have x0: "0 \<le> sint ?x" and xlt: "sint ?x < 2 ^ 19"
    using m0 mlt by (simp_all add: sx pos_imp_zdiv_nonneg_iff)
  have sn: "sint (?x + 1) = sint ?x + 1"
    using x0 xlt by (simp add: sint_word_ariths signed_take_bit_int_eq_self)
  have "sint ?x + 1 \<le> sint (pagesOf sz fs)"
    by (simp add: pagesOf_def Let_def word_sless_alt sn)
  with x0 show "0 < sint (pagesOf sz fs)"
    and "sint ?x < sint (pagesOf sz fs)"
    by simp_all
qed

lemma fixupdata_write_unfold:
  assumes "sz \<noteq> 0" and "\<not> maxOffLoop fs <s 0"
  shows "fixupdata_write d sz fs =
     (case prefixLoop 0 (take (nat (sint (pagesOf sz fs)))
             (countLoop (pagesOf sz fs) fs (replicate (nat (sint (pagesOf sz fs))) 0))) of
        (idxs, tot) \<Rightarrow>
          (case assignLoop (pagesOf sz fs) fs (idxs, replicate (unat tot) zeroFixup) of
             Inl e \<Rightarrow> Inl e
           | Inr (idxs, assigned) \<Rightarrow>
               (case foldE (emitStep assigned) [0 ..< length idxs]
                       (idxs, 0, if length (pages d) = 0 then replicate 4 0 else pages d,
                        records d) of
                  Inl e \<Rightarrow> Inl e
                | Inr (idxs, po, pgs, recs) \<Rightarrow> Inr (idxs, \<lparr>pages = pgs, records = recs\<rparr>))))"
proof -
  have "\<not> pagesOf sz fs <s 0"
    using pagesOf_bounds(1) [OF assms(2), of sz] by (simp add: word_sless_alt)
  then show ?thesis
    using assms unfolding fixupdata_write_def pagesOf_def Let_def
    by (simp only: if_False)
qed


lemma fixupdata_write_total:
  assumes len: "length fs < 2 ^ 32" and sz: "sz \<noteq> 0" and mx: "\<not> maxOffLoop fs <s 0"
  shows "\<exists>idxs d'. fixupdata_write d sz fs = Inr (idxs, d') \<and>
           length idxs = nat (sint (pagesOf sz fs)) \<and>
           length (pages d') =
             (if length (pages d) = 0 then 4 else length (pages d)) + 4 * nat (sint (pagesOf sz fs))"
proof -
  define npage where "npage = pagesOf sz fs"
  define N where "N = nat (sint npage)"
  define idxs1 where "idxs1 = countLoop npage fs (replicate N 0)"
  define V where "V = belowPage npage fs N"
  have l1: "length idxs1 = N"
    by (simp add: idxs1_def length_countLoop)
  have n1: "\<forall>q < length idxs1. idxs1 ! q = of_nat (onPage npage fs q)"
    using countLoop_nth [of "replicate N 0" npage _ fs] by (simp add: idxs1_def N_def l1 length_countLoop)
  obtain idxs2 tot where pl: "prefixLoop 0 (take N idxs1) = (idxs2, tot)"
    by (cases "prefixLoop 0 (take N idxs1)")
  have tk: "take N idxs1 = idxs1" using l1 by simp
  from prefixLoop_props [OF pl [unfolded tk]]
  have l2: "length idxs2 = N" and t: "tot = sum_list idxs1"
    and n2: "\<forall>i < N. idxs2 ! i = sum_list (take i idxs1)"
    by (simp_all add: l1)
  have Vle: "V \<le> length fs"
    by (simp add: V_def belowPage_le_length)
  have "sum_list (take N idxs1) = of_nat V"
    unfolding V_def by (rule sum_take_counts [OF n1]) (simp add: l1)
  then have ut: "unat tot = V"
    using Vle len by (simp add: t tk unat_of_nat32)
  have n2': "\<forall>p < nat (sint npage). idxs2 ! p = of_nat (belowPage npage ([] @ fs) p + onPage npage [] p)"
  proof (intro allI impI)
    fix p assume "p < nat (sint npage)"
    then have "p < N" by (simp add: N_def)
    then show "idxs2 ! p = of_nat (belowPage npage ([] @ fs) p + onPage npage [] p)"
      using n2 sum_take_counts [OF n1, of p] l1 by (simp add: onPage_Nil)
  qed
  from assignLoop_ok [of "[]" fs idxs2 npage "replicate V zeroFixup"] len l2 n2'
  obtain idxs3 assigned3 where
    al: "assignLoop npage fs (idxs2, replicate V zeroFixup) = Inr (idxs3, assigned3)"
    and l3: "length idxs3 = N" and la: "length assigned3 = V"
    and n3: "\<forall>p < N. idxs3 ! p = of_nat (belowPage npage fs (Suc p))"
    by (auto simp: N_def V_def)
  let ?pgs = "if length (pages d) = 0 then replicate 4 0 else pages d"
  from emitLoop_ok [of idxs3 N 0 "belowPage npage fs" 0 assigned3 ?pgs "records d"]
    l3 la n3 Vle len
  obtain idxs4 po4 pgs4 recs4 where
    el: "foldE (emitStep assigned3) [0 ..< N] (idxs3, 0, ?pgs, records d) = Inr (idxs4, po4, pgs4, recs4)"
    and l4: "length idxs4 = N" and lp: "length pgs4 = length ?pgs + 4 * N"
    by (auto simp: belowPage_0 belowPage_mono V_def)
  have "fixupdata_write d sz fs = Inr (idxs4, \<lparr>pages = pgs4, records = recs4\<rparr>)"
    using pl [unfolded idxs1_def] al el l3
    by (simp add: fixupdata_write_unfold [OF sz mx] npage_def [symmetric] N_def [symmetric] ut)
  then show ?thesis
    using l4 lp by (auto simp: N_def npage_def)
qed

section \<open>Bytes written and read back; the pages that get listed\<close>

lemma le32_bytes:
  "le32 (ucast v) (ucast (drop_bit 8 v)) (ucast (drop_bit 16 v)) (ucast (drop_bit 24 v)) = (v :: uint32)"
  unfolding le32_def
proof (rule bit_word_eqI)
  fix n assume "n < LENGTH(32)"
  then show "bit (ucast (ucast v :: byte) OR push_bit 8 (ucast (ucast (drop_bit 8 v) :: byte)) OR
               push_bit 16 (ucast (ucast (drop_bit 16 v) :: byte)) OR
               push_bit 24 (ucast (ucast (drop_bit 24 v) :: byte)) :: uint32) n = bit v n"
    by (cases "n < 8"; cases "n < 16"; cases "n < 24") (auto simp: bit_simps)
qed

lemma length_PutUint32: "length (PutUint32 b off v) = length b"
  by (simp add: PutUint32_def)

lemma length_PutUint16: "length (PutUint16 b off v) = length b"
  by (simp add: PutUint16_def)

lemma Uint32_PutUint32_same:
  "off + 4 \<le> length b \<Longrightarrow> Uint32 (PutUint32 b off v) off = Inr v"
  by (simp add: Uint32_def PutUint32_def le32_bytes)

lemma Uint32_PutUint32_other:
  "off' + 4 \<le> off \<or> off + 4 \<le> off' \<Longrightarrow> Uint32 (PutUint32 b off v) off' = Uint32 b off'"
  by (auto simp: Uint32_def PutUint32_def)

lemma maxOffLoop_ge_aux:
  "sint acc \<le> sint (foldl (\<lambda>maxOff f. let off = Src f + 3 in if maxOff <s off then off else maxOff) acc fs) \<and>
   (\<forall>f \<in> set fs. sint (Src f + 3) \<le>
       sint (foldl (\<lambda>maxOff f. let off = Src f + 3 in if maxOff <s off then off else maxOff) acc fs))"
proof (induction fs arbitrary: acc)
  case Nil
  then show ?case by simp
next
  case (Cons g fs)
  let ?acc = "if acc <s Src g + 3 then Src g + 3 else acc"
  have a: "sint acc \<le> sint ?acc" and b: "sint (Src g + 3) \<le> sint ?acc"
    by (simp_all add: word_sless_alt)
  from Cons.IH [of ?acc] a b show ?case
    by (auto simp: Let_def intro: order_trans)
qed

lemma maxOffLoop_ge: "f \<in> set fs \<Longrightarrow> sint (Src f + 3) \<le> sint (maxOffLoop fs)"
  using maxOffLoop_ge_aux [of "- 1" fs] by (simp add: maxOffLoop_def)

lemma src_page_listed:
  assumes f: "f \<in> set fs" and lo: "0 \<le> sint (Src f)" and hi: "sint (Src f) \<le> 0x7FFFFFFC"
  shows "\<not> maxOffLoop fs <s 0"
    and "nat (sint (signed_drop_bit pageBits (Src f))) < nat (sint (pagesOf sz fs))"
proof -
  have s3: "sint (Src f + 3) = sint (Src f) + 3"
    using lo hi by (simp add: sint_word_ariths signed_take_bit_int_eq_self)
  have ge: "sint (Src f) + 3 \<le> sint (maxOffLoop fs)"
    using maxOffLoop_ge [OF f] s3 by simp
  then show mx: "\<not> maxOffLoop fs <s 0"
    using lo by (simp add: word_sless_alt)
  have "sint (signed_drop_bit pageBits (Src f)) \<le> sint (signed_drop_bit pageBits (maxOffLoop fs))"
    using ge by (simp add: sint_signed_drop_bit_eq pageBits_def drop_bit_eq_div zdiv_mono1)
  moreover have "0 \<le> sint (signed_drop_bit pageBits (Src f))"
    using lo by (simp add: sint_signed_drop_bit_eq pageBits_def drop_bit_eq_div pos_imp_zdiv_nonneg_iff)
  ultimately show "nat (sint (signed_drop_bit pageBits (Src f))) < nat (sint (pagesOf sz fs))"
    using pagesOf_bounds(2) [OF mx, of sz] by simp
qed

section \<open>The object page table\<close>

lemma objdata_write_page:
  "page (objdata_write d obj fixup first cnt) =
     page d @ concat (map (\<lambda>idx. [0, ucast (drop_bit 8 idx), ucast (idx AND 0xff), 0]) fixup)"
  by (simp add: objdata_write_def Let_def)

lemma objdata_write_entries:
  "Uint32 (drop (length (object d)) (object (objdata_write d obj fixup first cnt))) 16 =
     Inr (of_nat (length fixup))"
  by (simp add: objdata_write_def Let_def Uint32_PutUint32_same Uint32_PutUint32_other
        length_PutUint32)
     (simp add: Uint32_def le32_def)

lemma length_slots:
  "length (concat (map (\<lambda>idx. [0, ucast (drop_bit 8 idx), ucast (idx AND 0xff), 0 :: byte]) (xs :: uint32 list))) =
     4 * length xs"
  by (induction xs) simp_all

text \<open>
  Claim C2, as amended. For every object, \<open>objdata.write\<close> appends one four-byte slot to
  the object page table for each entry of the list that \<open>fixupdata.write\<close> returns, and
  the \<open>page_table_entries\<close> word of the object's record (offset \<open>0x10\<close>) is the length
  of that list. The list is empty when the object has size 0 or no fixups; otherwise it
  has an entry for every page from page 0 up to the page of each fixup (with
  \<open>0 \<le> src \<le> 0x7FFFFFFC\<close>), whether or not a page holds a fixup itself. Neither write
  can fail, for fewer than \<open>2^32\<close> fixups.
\<close>
theorem objectStep_lists_every_page_up_to_last_fixup:
  assumes "length (Fixups obj) < 2 ^ 32"
  shows "\<exists>fixup od' fd' pd'.
           objectStep obj (od, fd, pd) = Inr (od', fd', pd') \<and>
           fixupdata_write fd (Size obj) (Fixups obj) = Inr (fixup, fd') \<and>
           page od' = page od @
             concat (map (\<lambda>idx. [0, ucast (drop_bit 8 idx), ucast (idx AND 0xff), 0]) fixup) \<and>
           length (page od') = length (page od) + 4 * length fixup \<and>
           Uint32 (drop (length (object od)) (object od')) 16 = Inr (of_nat (length fixup)) \<and>
           (Size obj = 0 \<or> Fixups obj = [] \<longrightarrow> fixup = []) \<and>
           (Size obj \<noteq> 0 \<longrightarrow>
              (\<forall>f \<in> set (Fixups obj). 0 \<le> sint (Src f) \<and> sint (Src f) \<le> 0x7FFFFFFC \<longrightarrow>
                 nat (sint (signed_drop_bit pageBits (Src f))) < length fixup))"
proof -
  obtain first cnt pd' where pw: "pagedata_write pd (Data obj) = ((first, cnt), pd')"
    by (cases "pagedata_write pd (Data obj)") auto
  have "\<exists>fixup fd'. fixupdata_write fd (Size obj) (Fixups obj) = Inr (fixup, fd') \<and>
          (Size obj = 0 \<or> Fixups obj = [] \<longrightarrow> fixup = []) \<and>
          (Size obj \<noteq> 0 \<longrightarrow>
              (\<forall>f \<in> set (Fixups obj). 0 \<le> sint (Src f) \<and> sint (Src f) \<le> 0x7FFFFFFC \<longrightarrow>
                 nat (sint (signed_drop_bit pageBits (Src f))) < length fixup))"
  proof (cases "Size obj = 0 \<or> maxOffLoop (Fixups obj) <s 0")
    case True
    then have "fixupdata_write fd (Size obj) (Fixups obj) = Inr ([], fd)"
      by (auto simp: fixupdata_write_def Let_def)
    moreover have "\<forall>f \<in> set (Fixups obj). 0 \<le> sint (Src f) \<and> sint (Src f) \<le> 0x7FFFFFFC \<longrightarrow> Size obj = 0"
      using True src_page_listed(1) by blast
    ultimately show ?thesis by auto
  next
    case False
    then have sz: "Size obj \<noteq> 0" and mx: "\<not> maxOffLoop (Fixups obj) <s 0" by simp_all
    from fixupdata_write_total [OF assms sz mx, of fd]
    obtain fixup fd' where w: "fixupdata_write fd (Size obj) (Fixups obj) = Inr (fixup, fd')"
      and l: "length fixup = nat (sint (pagesOf (Size obj) (Fixups obj)))"
      by auto
    have "Fixups obj \<noteq> []"
      using mx by (auto simp: maxOffLoop_Nil)
    then show ?thesis
      using w l sz src_page_listed(2) [of _ "Fixups obj" "Size obj"] by auto
  qed
  then obtain fixup fd' where w: "fixupdata_write fd (Size obj) (Fixups obj) = Inr (fixup, fd')"
    and e: "Size obj = 0 \<or> Fixups obj = [] \<longrightarrow> fixup = []"
    and c: "Size obj \<noteq> 0 \<longrightarrow>
              (\<forall>f \<in> set (Fixups obj). 0 \<le> sint (Src f) \<and> sint (Src f) \<le> 0x7FFFFFFC \<longrightarrow>
                 nat (sint (signed_drop_bit pageBits (Src f))) < length fixup)"
    by blast
  have "objectStep obj (od, fd, pd) = Inr (objdata_write od obj fixup first cnt, fd', pd')"
    by (simp add: objectStep_def pw w)
  then show ?thesis
    using w e c objdata_write_page [of od obj fixup first cnt]
      objdata_write_entries [of od obj fixup first cnt]
    by (auto simp: length_slots)
qed

text \<open>The object of \<open>secondPageProgram\<close>: two slots, eight bytes, are appended.\<close>
theorem objectStep_lists_every_page_up_to_last_fixup_witness:
  "length (Fixups (hd (Objects secondPageProgram))) < 2 ^ 32 \<and>
   Size (hd (Objects secondPageProgram)) \<noteq> 0 \<and>
   (\<exists>od' fd' pd'.
      objectStep (hd (Objects secondPageProgram))
        (\<lparr>object = [], page = []\<rparr>, \<lparr>pages = [], records = []\<rparr>,
         \<lparr>count = 0, offset = 0, data = []\<rparr>) = Inr (od', fd', pd') \<and>
      8 \<le> length (page od'))"
  using objectStep_lists_every_page_up_to_last_fixup
          [of "hd (Objects secondPageProgram)" "\<lparr>object = [], page = []\<rparr>"
              "\<lparr>pages = [], records = []\<rparr>" "\<lparr>count = 0, offset = 0, data = []\<rparr>"]
  by (auto simp: secondPageProgram_def sint_signed_drop_bit_eq pageBits_def)

text \<open>
  Claim C2 as stated fails: in \<open>secondPageProgram\<close> only the second page of the object
  holds a fixup, so the specification counts one page with fixups, yet the object page
  table has two slots (eight bytes) and the object's record has \<open>page_table_entries = 2\<close>;
  the first slot points at fixup page 1, whose records run from offset 0 to offset 0.
\<close>
theorem page_without_fixups_gets_slot:
  "outputBlock secondPageProgram 2 = Inr [0, 0, 1, 0, 0, 0, 2, 0] \<and>
   outputBlock secondPageProgram 3 = Inr [0, 0, 0, 0, 0, 0, 0, 0, 7, 0, 0, 0] \<and>
   outputBlock secondPageProgram 1 =
     Inr [0, 0x20, 0, 0, 0, 0, 1, 0, 7, 0x20, 0, 0, 1, 0, 0, 0, 2, 0, 0, 0, 0, 0, 0, 0] \<and>
   spec_pagesWithFixups (hd (Objects secondPageProgram)) = 1"
  by code_simp

section \<open>The layout of the output\<close>

lemma blocks_foldl_write:
  "blocks (foldl datawriter_write w xs) = blocks w @ xs"
  by (induction xs arbitrary: w) (simp_all add: datawriter_write_def)

lemma dumpBlocks_layout:
  assumes "foldE objectStep (Objects p)
             (\<lparr>object = [], page = []\<rparr>, \<lparr>pages = [], records = []\<rparr>,
              \<lparr>count = 0, offset = 0, data = []\<rparr>) = Inr (od, fd, pd)"
  shows "\<exists>h. dumpBlocks p = Inr ([h, object od, page od, pages fd, records fd] @ data pd) \<and>
           length h = 0xac \<and>
           Uint32 h 0x2c = Inr (offset pd) \<and>
           Uint32 h 0x30 = Inr (of_nat (length (pages fd)) + of_nat (length (records fd)))"
  using assms
  by (simp add: dumpBlocks_def Let_def datawriter_write_def blocks_foldl_write
        length_PutUint32 length_PutUint16 Uint32_PutUint32_same Uint32_PutUint32_other)

section \<open>Programs without fixups\<close>

lemma objectStep_no_fixups:
  "Fixups obj = [] \<Longrightarrow>
   \<exists>pd'. objectStep obj (od, fd, pd) =
     Inr (\<lparr>object = object od @
              PutUint32 (PutUint32 (PutUint32 (replicate 24 0) 0 (Size obj)) 4 (Addr obj)) 8 (Flags obj),
            page = page od\<rparr>, fd, pd')"
  by (cases "pagedata_write pd (Data obj)")
     (auto simp: objectStep_def fixupdata_write_Nil objdata_write_def Let_def)

lemma objectSteps_no_fixups:
  assumes "\<forall>obj \<in> set os. Fixups obj = []"
  shows "\<exists>od' pd'. foldE objectStep os (od, fd, pd) = Inr (od', fd, pd') \<and>
           page od' = page od \<and>
           object od' = object od @
             concat (map (\<lambda>obj. PutUint32 (PutUint32 (PutUint32 (replicate 24 0) 0 (Size obj))
                                    4 (Addr obj)) 8 (Flags obj)) os)"
  using assms
proof (induction os arbitrary: od pd)
  case Nil
  then show ?case by simp
next
  case (Cons obj os)
  then have "Fixups obj = []" by simp
  from objectStep_no_fixups [OF this, of od fd pd]
  obtain pd1 where st: "objectStep obj (od, fd, pd) =
     Inr (\<lparr>object = object od @
              PutUint32 (PutUint32 (PutUint32 (replicate 24 0) 0 (Size obj)) 4 (Addr obj)) 8 (Flags obj),
            page = page od\<rparr>, fd, pd1)"
    by blast
  from Cons.IH [of _ pd1] Cons.prems st show ?case
    by (fastforce simp: st)
qed

text \<open>
  Claim C4, as amended. When no object of the program has a fixup, \<open>fixupdata.write\<close>
  returns before it touches its tables: the fixup page table and the fixup record table
  of the output are both empty (no zero entries and no sentinel), the fixup section size
  in the header (offset \<open>0x30\<close>) is 0, the object page table is empty, and every object's
  record carries only size, base address and flags, \<open>page_table_index\<close> and
  \<open>page_table_entries\<close> being 0.
\<close>
theorem no_fixups_empty_fixup_section:
  assumes "\<forall>obj \<in> set (Objects p). Fixups obj = []"
  shows "outputBlock p 3 = Inr [] \<and> outputBlock p 4 = Inr [] \<and>
         headerWord p 0x30 = Inr 0 \<and>
         outputBlock p 2 = Inr [] \<and>
         outputBlock p 1 =
           Inr (concat (map (\<lambda>obj. PutUint32 (PutUint32 (PutUint32 (replicate 24 0) 0 (Size obj))
                                      4 (Addr obj)) 8 (Flags obj)) (Objects p)))"
proof -
  from objectSteps_no_fixups [OF assms, of "\<lparr>object = [], page = []\<rparr>"
       "\<lparr>pages = [], records = []\<rparr>" "\<lparr>count = 0, offset = 0, data = []\<rparr>"]
  obtain od pd where
    st: "foldE objectStep (Objects p)
           (\<lparr>object = [], page = []\<rparr>, \<lparr>pages = [], records = []\<rparr>,
            \<lparr>count = 0, offset = 0, data = []\<rparr>) = Inr (od, \<lparr>pages = [], records = []\<rparr>, pd)"
    and pg: "page od = []"
    and ob: "object od = concat (map (\<lambda>obj. PutUint32 (PutUint32 (PutUint32 (replicate 24 0) 0 (Size obj))
                                      4 (Addr obj)) 8 (Flags obj)) (Objects p))"
    by auto
  from dumpBlocks_layout [OF st] obtain h where
    "dumpBlocks p = Inr ([h, object od, page od, [], []] @ data pd)"
    "Uint32 h 0x30 = Inr 0"
    by auto
  then show ?thesis
    using pg ob by (simp add: outputBlock_def headerWord_def)
qed

text \<open>Scenario S1 has no fixups.\<close>
theorem no_fixups_empty_fixup_section_witness:
  "Fixups (hd (Objects minimalProgram)) = [] \<and> length (Objects minimalProgram) = 1 \<and>
   outputBlock minimalProgram 3 = Inr [] \<and> headerWord minimalProgram 0x30 = Inr 0"
  using no_fixups_empty_fixup_section [of minimalProgram]
  by (simp add: minimalProgram_def)

text \<open>
  Claim C4 as stated fails on scenario S1: one object of 64 bytes (one page) and no
  fixups. The fixup page table is empty, with neither the zero entry for the page nor a
  sentinel entry, and the fixup section has length 0.
\<close>
theorem minimal_program_no_sentinel:
  "outputBlock minimalProgram 3 = Inr [] \<and> outputBlock minimalProgram 4 = Inr [] \<and>
   headerWord minimalProgram 0x30 = Inr 0 \<and> pagecount 64 = 1"
  by code_simp

section \<open>The last page size\<close>

lemma and_4095_less: "(x AND 4095 :: uint32) < 4096"
proof -
  have "x AND 4095 \<le> (4095 :: uint32)" by (rule word_and_le1)
  then show ?thesis by (simp add: word_le_nat_alt word_less_nat_alt)
qed

lemma pagedata_write_offset:
  "pagedata_write pd bs = (r, pd') \<Longrightarrow> offset pd < 4096 \<Longrightarrow> offset pd' < 4096"
  by (auto simp: pagedata_write_def Let_def pageSize_def pageBits_def and_4095_less split: if_splits)

lemma objectStep_offset:
  "objectStep obj (od, fd, pd) = Inr (od', fd', pd') \<Longrightarrow> offset pd < 4096 \<Longrightarrow> offset pd' < 4096"
  by (cases "pagedata_write pd (Data obj)")
     (auto simp: objectStep_def split: sum.splits prod.splits dest: pagedata_write_offset)

lemma objectSteps_offset:
  "foldE objectStep os (od, fd, pd) = Inr (od', fd', pd') \<Longrightarrow> offset pd < 4096 \<Longrightarrow>
   offset pd' < 4096"
proof (induction os arbitrary: od fd pd)
  case Nil
  then show ?case by simp
next
  case (Cons obj os)
  then show ?case
    by (auto split: sum.splits dest: objectStep_offset)
qed

lemma last_page_size_below_page_size:
  assumes "headerWord p 0x2c = Inr v"
  shows "v < 4096"
proof (cases "foldE objectStep (Objects p)
             (\<lparr>object = [], page = []\<rparr>, \<lparr>pages = [], records = []\<rparr>,
              \<lparr>count = 0, offset = 0, data = []\<rparr>)")
  case (Inl e)
  then have "dumpBlocks p = Inl e" by (simp add: dumpBlocks_def)
  with assms show ?thesis by (simp add: headerWord_def)
next
  case (Inr st)
  obtain od fd pd where st: "st = (od, fd, pd)" by (cases st) auto
  from objectSteps_offset [OF Inr [unfolded st]] have "offset pd < 4096" by simp
  moreover from dumpBlocks_layout [OF Inr [unfolded st]] assms
  have "v = offset pd" by (auto simp: headerWord_def)
  ultimately show ?thesis by simp
qed

text \<open>
  Claim C3 fails on the code. \<open>fullPageProgram\<close> has one object whose data fills its
  final page exactly; the header word at \<open>0x2c\<close> is then \<open>4096 AND 4095 = 0\<close>, not
  the page size, and the reader of this repository refuses a header with that value. The
  lemma before shows that the word never reaches the page size.
\<close>
theorem full_last_page_size_zero:
  "headerWord fullPageProgram 0x2c = Inr 0 \<and> \<not> lastPageSizeAccepted 0"
  by (simp add: fullPageProgram_def headerWord_def dumpBlocks_def objectStep_def pagedata_write_def
        fixupdata_write_Nil objdata_write_def datawriter_write_def pagecount_def pageSize_def
        pageBits_def Let_def PutUint32_def PutUint16_def Uint32_def le32_def
        lastPageSizeAccepted_def)

section \<open>A fixup across a page boundary\<close>

text \<open>
  Claim C1 fails on the code. For an object of 8192 bytes and the one fixup at 4094,
  whose four bytes touch pages 0 and 1, \<open>fixupdata.write\<close> emits a single record of
  seven bytes, with page-local source \<open>0x0ffe = 4094\<close>, in the bucket of page 0. The
  bucket of page 1 (fixup page 2) runs from offset 7 to offset 7 of the records: it is
  empty, and no record with source \<open>-2\<close> exists.
\<close>
theorem straddling_fixup_single_record:
  "fixupdata_write \<lparr>pages = [], records = []\<rparr> 8192 [straddlingFixup] =
     Inr ([1, 2], \<lparr>pages = [0, 0, 0, 0, 7, 0, 0, 0, 7, 0, 0, 0],
                   records = [7, 0, 0xfe, 0x0f, 1, 0, 0]\<rparr>) \<and>
   spec_touchedPages straddlingFixup = [0, 1]"
  by code_simp

section \<open>What the relocation translator appends\<close>

lemma findSegment_Some:
  "findSegment k segs off = Some (i, seg) \<Longrightarrow>
   k \<le> i \<and> i - k < length segs \<and> seg = segs ! (i - k) \<and>
   contains seg \<lparr>addr = off, size' = 4\<rparr> \<and>
   (\<forall>j < i - k. \<not> contains (segs ! j) \<lparr>addr = off, size' = 4\<rparr>)"
proof (induction segs arbitrary: k)
  case Nil
  then show ?case by simp
next
  case (Cons s segs)
  show ?case
  proof (cases "contains s \<lparr>addr = off, size' = 4\<rparr>")
    case True
    with Cons.prems show ?thesis by simp
  next
    case False
    with Cons.prems have "findSegment (k + 1) segs off = Some (i, seg)" by simp
    from Cons.IH [OF this] have ih: "k + 1 \<le> i" "i - (k + 1) < length segs"
      "seg = segs ! (i - (k + 1))" "contains seg \<lparr>addr = off, size' = 4\<rparr>"
      "\<forall>j < i - (k + 1). \<not> contains (segs ! j) \<lparr>addr = off, size' = 4\<rparr>"
      by blast+
    have eq: "i - k = Suc (i - (k + 1))" using ih(1) by simp
    show ?thesis
    proof (intro conjI allI impI)
      show "k \<le> i" using ih(1) by simp
      show "i - k < length (s # segs)" using ih(2) eq by simp
      show "seg = (s # segs) ! (i - k)" using ih(3) eq by simp
      show "contains seg \<lparr>addr = off, size' = 4\<rparr>" using ih(4) .
      fix j assume "j < i - k"
      then show "\<not> contains ((s # segs) ! j) \<lparr>addr = off, size' = 4\<rparr>"
        using False ih(5) eq by (cases j) simp_all
    qed
  qed
qed

lemma findSegment_0:
  "findSegment 0 segs off = Some (i, seg) \<Longrightarrow>
   i < length segs \<and> seg = segs ! i \<and> contains seg \<lparr>addr = off, size' = 4\<rparr> \<and>
   (\<forall>j < i. \<not> contains (segs ! j) \<lparr>addr = off, size' = 4\<rparr>)"
  using findSegment_Some [of 0 segs off i seg] by auto

lemma addRelocation_cases:
  assumes "addRelocation rel segs syms = Inr segs'"
  shows "segs' = segs \<or> (\<exists>i fx. emitted rel segs syms i fx \<and> segs' = appendFixupTo segs i fx)"
proof (cases "findSegment 0 segs (r_offset rel)")
  case None
  with assms show ?thesis by (simp add: addRelocation_def)
next
  case (Some a)
  obtain i seg where a: "a = (i, seg)" by (cases a) auto
  show ?thesis
  proof (cases "readValue (Data (object' seg)) (r_offset rel - addr seg)")
    case (Inl e)
    with assms Some a show ?thesis
      by (simp add: addRelocation_def Let_def split: if_splits)
  next
    case (Inr val)
    with assms Some a show ?thesis
      by (auto simp: addRelocation_def emitted_def Let_def R_386_32_def R_386_PC32_def
            split: if_splits)
  qed
qed

lemma main_addRelocation_cases:
  assumes "main_addRelocation rel segs syms = Inr segs'"
  shows "segs' = segs \<or> (\<exists>i fx. emitted rel segs syms i fx \<and> segs' = appendFixupTo segs i fx)"
proof (cases "findSegment 0 segs (r_offset rel)")
  case None
  with assms show ?thesis by (simp add: main_addRelocation_def)
next
  case (Some a)
  obtain i seg where a: "a = (i, seg)" by (cases a) auto
  show ?thesis
  proof (cases "readValue (Data (object' seg)) (r_offset rel - addr seg)")
    case (Inl e)
    with assms Some a show ?thesis
      by (simp add: main_addRelocation_def Let_def split: if_splits)
  next
    case (Inr val)
    with assms Some a show ?thesis
      by (auto simp: main_addRelocation_def emitted_def Let_def R_386_32_def R_386_PC32_def
            split: if_splits)
  qed
qed


lemma length_appendFixupTo: "length (appendFixupTo segs i fx) = length segs"
  by (simp add: appendFixupTo_def)

lemma appendFixupTo_nth:
  "j < length segs \<Longrightarrow>
   appendFixupTo segs i fx ! j =
     (if j = i
      then (segs ! i)\<lparr>object' :=
             (object' (segs ! i))\<lparr>Fixups := Fixups (object' (segs ! i)) @ [fx]\<rparr>\<rparr>
      else segs ! j)"
  by (simp add: appendFixupTo_def)

lemma emitted_props:
  assumes "emitted rel segs syms i fx"
  shows "i < length segs"
    and "contains (segs ! i) \<lparr>addr = r_offset rel, size' = 4\<rparr>"
    and "Src fx = r_offset rel - addr (segs ! i)"
    and "\<exists>val. readValue (Data (object' (segs ! i))) (Src fx) = Inr val"
    and "SrcType fx = SrcRelative32 \<Longrightarrow> Obj (Target fx) \<noteq> of_nat (i + 1)"
proof -
  from assms obtain seg where fs: "findSegment 0 segs (r_offset rel) = Some (i, seg)"
    by (auto simp: emitted_def split: option.splits)
  from findSegment_0 [OF fs] have i: "i < length segs" and seg: "seg = segs ! i"
    and c: "contains seg \<lparr>addr = r_offset rel, size' = 4\<rparr>"
    by blast+
  from assms fs obtain val where
    rv: "readValue (Data (object' seg)) (r_offset rel - addr seg) = Inr val"
    by (auto simp: emitted_def split: sum.splits)
  show "i < length segs" by (rule i)
  show "contains (segs ! i) \<lparr>addr = r_offset rel, size' = 4\<rparr>" using c seg by simp
  show src: "Src fx = r_offset rel - addr (segs ! i)"
    using assms fs rv seg by (auto simp: emitted_def Let_def split: if_splits)
  show "\<exists>val. readValue (Data (object' (segs ! i))) (Src fx) = Inr val"
    using rv seg src by auto
  show "SrcType fx = SrcRelative32 \<Longrightarrow> Obj (Target fx) \<noteq> of_nat (i + 1)"
    using assms fs rv
    by (auto simp: emitted_def Let_def SrcRelative32_def SrcOffset32_def split: if_splits)
qed

lemma foldE_preserves:
  assumes "\<And>x s s'. f x s = Inr s' \<Longrightarrow> P s \<Longrightarrow> P s'"
    and "foldE f xs s = Inr s'" and "P s"
  shows "P s'"
  using assms(2,3)
proof (induction xs arbitrary: s)
  case Nil
  then show ?case by simp
next
  case (Cons x xs)
  then show ?case
    by (auto split: sum.splits intro: assms(1))
qed

section \<open>Relative fixups inside one object\<close>

lemma twoSegmentFile_eval:
  "assignSegments twoSegmentFile = Inr twoSegments"
  "main_resolveSymbols twoSegmentFile twoSegments = Inr twoSegmentSymbols"
  "resolveSymbols twoSegmentFile twoSegments = Inr twoSegmentSymbols"
  "readExecutable twoSegmentFile = Inr twoSegmentProgram"
  "ConvertToLELX twoSegmentFile = Inr twoSegmentProgram"
  by code_simp+

lemma readRelocationSection_preserves:
  assumes add: "\<And>rel segs syms segs'. add rel segs syms = Inr segs' \<Longrightarrow>
             segs' = segs \<or> (\<exists>i fx. emitted rel segs syms i fx \<and> segs' = appendFixupTo segs i fx)"
    and step: "\<And>rel segs i fx. emitted rel segs syms i fx \<Longrightarrow> P segs \<Longrightarrow> P (appendFixupTo segs i fx)"
    and run: "readRelocationSection add s segs syms = Inr segs'" and P: "P segs"
  shows "P segs'"
proof -
  have one: "\<And>rel sg sg'. add rel sg syms = Inr sg' \<Longrightarrow> P sg \<Longrightarrow> P sg'"
    using add step by blast
  from run obtain bs where "foldE (\<lambda>rel segs. add rel segs syms) (parseRels bs) segs = Inr segs'"
    by (auto simp: readRelocationSection_def split: option.splits if_splits)
  then show ?thesis
    using P by (rule foldE_preserves [where P = P, rotated]) (rule one)
qed

lemma readSections_preserves:
  assumes add: "\<And>rel segs syms segs'. add rel segs syms = Inr segs' \<Longrightarrow>
             segs' = segs \<or> (\<exists>i fx. emitted rel segs syms i fx \<and> segs' = appendFixupTo segs i fx)"
    and step: "\<And>rel segs i fx. emitted rel segs syms i fx \<Longrightarrow> P segs \<Longrightarrow> P (appendFixupTo segs i fx)"
    and run: "readSections add f segs syms = Inr segs'" and P: "P segs"
  shows "P segs'"
proof -
  have one: "\<And>s sg sg'.
      (if sh_type s = SHT_REL \<or> sh_type s = SHT_RELA
       then if length (sections f) \<le> unat (sh_info s) then Inl RelocationSectionInvalid
            else readRelocationSection add s sg syms
       else Inr sg) = Inr sg' \<Longrightarrow> P sg \<Longrightarrow> P sg'"
    using readRelocationSection_preserves [of add syms P, OF add step]
    by (auto split: if_splits)
  from run [unfolded readSections_def] P show ?thesis
    by (rule foldE_preserves [where P = P, rotated]) (rule one)
qed

lemma readLoadSegment_fresh:
  "readLoadSegment i p = Inr seg \<Longrightarrow>
   Fixups (object' seg) = [] \<and> Size (object' seg) = size' seg \<and> Addr (object' seg) = addr seg"
  by (auto simp: readLoadSegment_def Let_def split: if_splits)

lemma assignSegmentsFrom_fresh:
  "assignSegmentsFrom i ps acc = Inr segs \<Longrightarrow>
   \<forall>s \<in> set acc. Fixups (object' s) = [] \<and> Size (object' s) = size' s \<Longrightarrow>
   \<forall>s \<in> set segs. Fixups (object' s) = [] \<and> Size (object' s) = size' s"
proof (induction ps arbitrary: i acc)
  case Nil
  then show ?case by simp
next
  case (Cons p ps)
  show ?case
  proof (cases "p_type p = PT_NULL \<or> p_type p = PT_NOTE \<or> p_type p = ptGNUEHFrame")
    case True
    with Cons.prems(1) have "assignSegmentsFrom (i + 1) ps acc = Inr segs" by simp
    from Cons.IH [OF this Cons.prems(2)] show ?thesis .
  next
    case False
    with Cons.prems(1) obtain seg where ld: "readLoadSegment i p = Inr seg"
      and rest: "assignSegmentsFrom (i + 1) ps (acc @ [seg]) = Inr segs"
      by (auto split: if_splits sum.splits)
    have "\<forall>s \<in> set (acc @ [seg]). Fixups (object' s) = [] \<and> Size (object' s) = size' s"
      using Cons.prems(2) readLoadSegment_fresh [OF ld] by auto
    from Cons.IH [OF rest this] show ?thesis .
  qed
qed

lemma assignSegments_fresh:
  "assignSegments f = Inr segs \<Longrightarrow>
   \<forall>s \<in> set segs. Fixups (object' s) = [] \<and> Size (object' s) = size' s"
  using assignSegmentsFrom_fresh [of 0 "progs f" "[]" segs] by (simp add: assignSegments_def)

lemma convert_invariant:
  assumes add: "\<And>rel segs syms segs'. add rel segs syms = Inr segs' \<Longrightarrow>
             segs' = segs \<or> (\<exists>i fx. emitted rel segs syms i fx \<and> segs' = appendFixupTo segs i fx)"
    and step: "\<And>rel segs syms i fx. emitted rel segs syms i fx \<Longrightarrow> P segs \<Longrightarrow> P (appendFixupTo segs i fx)"
    and init: "\<And>segs. \<forall>s \<in> set segs. Fixups (object' s) = [] \<and> Size (object' s) = size' s \<Longrightarrow> P segs"
    and run: "convert resolve add f = Inr p"
  shows "\<exists>segs. P segs \<and> Objects p = map object' segs"
proof -
  from run obtain segs0 syms segs where a: "assignSegments f = Inr segs0"
    and r: "readSections add f segs0 syms = Inr segs" and p: "Objects p = map object' segs"
    by (auto simp: convert_def Let_def split: if_splits sum.splits)
  have P0: "P segs0" using init assignSegments_fresh [OF a] by blast
  have "P segs"
  proof (rule readSections_preserves [where P = P and add = add and syms = syms and f = f
           and segs = segs0 and segs' = segs])
    show "\<And>rel segs syms segs'. add rel segs syms = Inr segs' \<Longrightarrow>
            segs' = segs \<or> (\<exists>i fx. emitted rel segs syms i fx \<and> segs' = appendFixupTo segs i fx)"
      by (rule add)
    show "\<And>rel segs i fx. emitted rel segs syms i fx \<Longrightarrow> P segs \<Longrightarrow> P (appendFixupTo segs i fx)"
      by (rule step)
    show "readSections add f segs0 syms = Inr segs" by (rule r)
    show "P segs0" by (rule P0)
  qed
  with p show ?thesis by blast
qed

lemma appendFixupTo_selfRelativeFree:
  assumes "emitted rel segs syms i fx" and "selfRelativeFree (map object' segs)"
  shows "selfRelativeFree (map object' (appendFixupTo segs i fx))"
  unfolding selfRelativeFree_def
proof (intro allI impI ballI)
  fix j g
  assume j: "j < length (map object' (appendFixupTo segs i fx))"
    and g: "g \<in> set (Fixups (map object' (appendFixupTo segs i fx) ! j))"
  from j have jl: "j < length segs" by (simp add: length_appendFixupTo)
  show "\<not> (SrcType g = SrcRelative32 \<and> Obj (Target g) = of_nat (j + 1))"
  proof (cases "j = i \<and> g = fx")
    case True
    then show ?thesis using emitted_props(5) [OF assms(1)] by auto
  next
    case False
    then have "g \<in> set (Fixups (map object' segs ! j))"
      using g jl by (auto simp: length_appendFixupTo appendFixupTo_nth split: if_splits)
    then show ?thesis
      using assms(2) jl by (auto simp: selfRelativeFree_def)
  qed
qed

lemma fresh_selfRelativeFree:
  "\<forall>s \<in> set segs. Fixups (object' s) = [] \<and> Size (object' s) = size' s \<Longrightarrow>
   selfRelativeFree (map object' segs)"
  by (auto simp: selfRelativeFree_def)

lemma convert_selfRelativeFree:
  assumes add: "\<And>rel segs syms segs'. add rel segs syms = Inr segs' \<Longrightarrow>
             segs' = segs \<or> (\<exists>i fx. emitted rel segs syms i fx \<and> segs' = appendFixupTo segs i fx)"
    and run: "convert resolve add f = Inr p"
  shows "selfRelativeFree (Objects p)"
proof -
  have "\<exists>segs :: segment list. selfRelativeFree (map object' segs) \<and> Objects p = map object' segs"
  proof (rule convert_invariant [where P = "\<lambda>segs :: segment list. selfRelativeFree (map object' segs)"
           and add = add and resolve = resolve and f = f and p = p])
    show "\<And>rel segs syms segs'. add rel segs syms = Inr segs' \<Longrightarrow>
            segs' = segs \<or> (\<exists>i fx. emitted rel segs syms i fx \<and> segs' = appendFixupTo segs i fx)"
      by (rule add)
    show "\<And>rel (segs :: segment list) syms i fx. emitted rel segs syms i fx \<Longrightarrow>
            selfRelativeFree (map object' segs) \<Longrightarrow>
            selfRelativeFree (map object' (appendFixupTo segs i fx))"
      by (rule appendFixupTo_selfRelativeFree)
    show "\<And>segs :: segment list. \<forall>s \<in> set segs. Fixups (object' s) = [] \<and> Size (object' s) = size' s \<Longrightarrow>
            selfRelativeFree (map object' segs)"
      by (rule fresh_selfRelativeFree)
    show "convert resolve add f = Inr p" by (rule run)
  qed
  then show ?thesis by auto
qed


text \<open>
  Claim C5. A \<open>R_386_PC32\<close> relocation whose symbol lies in the object of the
  relocation site leaves the segments as they are, in both packages: whenever
  \<open>addRelocation\<close> returns without error nothing is appended, and it does return without
  error once the symbol index is in range and the value at the site can be read.
  Consequently no object of a program that either converter returns holds a fixup of type
  \<open>Relative32\<close> whose target object is the object itself.
\<close>
theorem intra_object_pc32_emits_no_fixup:
  "(findSegment 0 segs (r_offset rel) = Some (i, seg) \<longrightarrow>
      r_info rel AND 0xff = R_386_PC32 \<longrightarrow>
      Obj (sym_ref (syms ! unat (drop_bit 8 (r_info rel) - 1))) = of_nat (i + 1) \<longrightarrow>
        (\<forall>segs'. addRelocation rel segs syms = Inr segs' \<longrightarrow> segs' = segs) \<and>
        (\<forall>segs'. main_addRelocation rel segs syms = Inr segs' \<longrightarrow> segs' = segs) \<and>
        (\<forall>val. drop_bit 8 (r_info rel) \<noteq> 0 \<and> drop_bit 8 (r_info rel) \<le> of_nat (length syms) \<and>
               readValue (Data (object' seg)) (r_offset rel - addr seg) = Inr val \<longrightarrow>
               addRelocation rel segs syms = Inr segs \<and>
               main_addRelocation rel segs syms = Inr segs)) \<and>
   (\<forall>p. ConvertToLELX f = Inr p \<longrightarrow> selfRelativeFree (Objects p)) \<and>
   (\<forall>p. readExecutable f = Inr p \<longrightarrow> selfRelativeFree (Objects p))"
proof (intro conjI impI allI)
  fix p assume "ConvertToLELX f = Inr p"
  then show "selfRelativeFree (Objects p)"
    unfolding ConvertToLELX_def by (rule convert_selfRelativeFree [rotated]) (rule addRelocation_cases)
next
  fix p assume "readExecutable f = Inr p"
  then show "selfRelativeFree (Objects p)"
    unfolding readExecutable_def
    by (rule convert_selfRelativeFree [rotated]) (rule main_addRelocation_cases)
next
  fix segs'
  assume "findSegment 0 segs (r_offset rel) = Some (i, seg)" "r_info rel AND 0xff = R_386_PC32"
    "Obj (sym_ref (syms ! unat (drop_bit 8 (r_info rel) - 1))) = of_nat (i + 1)"
    "addRelocation rel segs syms = Inr segs'"
  then show "segs' = segs"
    by (auto simp: addRelocation_def Let_def R_386_32_def R_386_PC32_def
          split: if_splits sum.splits)
next
  fix segs'
  assume "findSegment 0 segs (r_offset rel) = Some (i, seg)" "r_info rel AND 0xff = R_386_PC32"
    "Obj (sym_ref (syms ! unat (drop_bit 8 (r_info rel) - 1))) = of_nat (i + 1)"
    "main_addRelocation rel segs syms = Inr segs'"
  then show "segs' = segs"
    by (auto simp: main_addRelocation_def Let_def R_386_32_def R_386_PC32_def
          split: if_splits sum.splits)
next
  fix val
  assume "findSegment 0 segs (r_offset rel) = Some (i, seg)" "r_info rel AND 0xff = R_386_PC32"
    "Obj (sym_ref (syms ! unat (drop_bit 8 (r_info rel) - 1))) = of_nat (i + 1)"
    "drop_bit 8 (r_info rel) \<noteq> 0 \<and> drop_bit 8 (r_info rel) \<le> of_nat (length syms) \<and>
     readValue (Data (object' seg)) (r_offset rel - addr seg) = Inr val"
  then show "addRelocation rel segs syms = Inr segs" "main_addRelocation rel segs syms = Inr segs"
    by (auto simp: addRelocation_def main_addRelocation_def Let_def R_386_32_def R_386_PC32_def
          not_less)
qed

lemma twoSegments_eval:
  "findSegment 0 twoSegments 0x1000c = Some (0, hd twoSegments)"
  "findSegment 0 twoSegments 0x10004 = Some (0, hd twoSegments)"
  "addRelocation \<lparr>r_offset = 0x1000c, r_info = 0x302\<rparr> twoSegments twoSegmentSymbols = Inr twoSegments"
  "main_addRelocation \<lparr>r_offset = 0x1000c, r_info = 0x302\<rparr> twoSegments twoSegmentSymbols = Inr twoSegments"
  "Obj (sym_ref (twoSegmentSymbols ! 2)) = 1"
  "Fixups (hd (Objects twoSegmentProgram)) ! 1 =
     \<lparr>SrcType = SrcRelative32, Src = 8, Target = \<lparr>Obj = 2, Off = 4\<rparr>, Add = 0\<rparr>"
  by code_simp+

text \<open>
  In \<open>twoSegmentFile\<close> the relocation at \<open>0x1000c\<close> against \<open>fn\<close> stays inside object 1
  and is dropped; the one at \<open>0x10008\<close> against \<open>var\<close> crosses to object 2 and is kept.
\<close>
theorem intra_object_pc32_emits_no_fixup_witness:
  "findSegment 0 twoSegments 0x1000c = Some (0, hd twoSegments) \<and>
   (0x302 :: uint32) AND 0xff = R_386_PC32 \<and>
   Obj (sym_ref (twoSegmentSymbols ! 2)) = 1 \<and>
   addRelocation \<lparr>r_offset = 0x1000c, r_info = 0x302\<rparr> twoSegments twoSegmentSymbols =
     Inr twoSegments \<and>
   main_addRelocation \<lparr>r_offset = 0x1000c, r_info = 0x302\<rparr> twoSegments twoSegmentSymbols =
     Inr twoSegments \<and>
   ConvertToLELX twoSegmentFile = Inr twoSegmentProgram \<and>
   readExecutable twoSegmentFile = Inr twoSegmentProgram \<and>
   Fixups (hd (Objects twoSegmentProgram)) ! 1 =
     \<lparr>SrcType = SrcRelative32, Src = 8, Target = \<lparr>Obj = 2, Off = 4\<rparr>, Add = 0\<rparr>"
  using intra_object_pc32_emits_no_fixup
          [of twoSegments "\<lparr>r_offset = 0x1000c, r_info = 0x302\<rparr>" 0 "hd twoSegments"
              twoSegmentSymbols twoSegmentFile]
        twoSegments_eval twoSegmentFile_eval
  by (simp add: R_386_PC32_def)

section \<open>Relocations of type \<open>R_386_32\<close>\<close>

text \<open>
  Claim C6. Let a relocation of type \<open>R_386_32\<close> lie in segment \<open>seg\<close>, found at position
  \<open>i\<close>, let its symbol \<open>sy\<close> be resolved (object neither 0 nor \<open>ABSOLUTE\<close>), and let
  \<open>val\<close> be the little-endian word read from the object's data at the site
  \<open>srcOff = offset - base\<close>. Then \<open>addRelocation\<close>, in both packages, appends exactly one
  fixup to the object of that segment and changes nothing else: source type \<open>0x07\<close>,
  \<open>src = srcOff\<close>, target object the symbol's, target offset
  \<open>sy.off + (val - sy.addr)\<close>, \<open>add = 0\<close>. (\<open>i + 1 < 2^32\<close>: the position fits the
  32-bit object index.)
\<close>
theorem r386_32_appends_one_offset32_fixup:
  assumes "findSegment 0 segs (r_offset rel) = Some (i, seg)"
    and "i + 1 < 2 ^ 32"
    and "drop_bit 8 (r_info rel) \<noteq> 0" and "drop_bit 8 (r_info rel) \<le> of_nat (length syms)"
    and "sy = syms ! unat (drop_bit 8 (r_info rel) - 1)"
    and "Obj (sym_ref sy) \<noteq> 0" and "Obj (sym_ref sy) \<noteq> objAbsolute"
    and "r_info rel AND 0xff = R_386_32"
    and "srcOff = r_offset rel - addr seg"
    and "\<not> srcOff <s 0" and "unat srcOff + 4 \<le> length (Data (object' seg))"
    and "val = le32 (Data (object' seg) ! unat srcOff) (Data (object' seg) ! (unat srcOff + 1))
                 (Data (object' seg) ! (unat srcOff + 2)) (Data (object' seg) ! (unat srcOff + 3))"
    and "fx = \<lparr>SrcType = 0x07, Src = srcOff,
               Target = \<lparr>Obj = Obj (sym_ref sy), Off = Off (sym_ref sy) + (val - sym_addr sy)\<rparr>,
               Add = 0\<rparr>"
  shows "addRelocation rel segs syms = Inr (appendFixupTo segs i fx) \<and>
         main_addRelocation rel segs syms = Inr (appendFixupTo segs i fx) \<and>
         length (appendFixupTo segs i fx) = length segs \<and>
         Fixups (object' (appendFixupTo segs i fx ! i)) = Fixups (object' (segs ! i)) @ [fx] \<and>
         (\<forall>j < length segs. j \<noteq> i \<longrightarrow> appendFixupTo segs i fx ! j = segs ! j)"
proof -
  have "unat (of_nat (i + 1) :: int32) = i + 1"
    by (rule unat_of_nat32 [OF assms(2)])
  then have nz: "(of_nat (i + 1) :: int32) \<noteq> 0"
    by (auto simp del: of_nat_add of_nat_Suc)
  have rv: "readValue (Data (object' seg)) (r_offset rel - addr seg) = Inr val"
    using assms(9-12) by (simp add: readValue_def Uint32_def)
  from findSegment_0 [OF assms(1)] have i: "i < length segs" by blast
  have "addRelocation rel segs syms = Inr (appendFixupTo segs i fx)"
    using assms nz rv
    by (simp add: addRelocation_def Let_def not_less SrcOffset32_def R_386_32_def del: of_nat_add of_nat_Suc)
  moreover have "main_addRelocation rel segs syms = Inr (appendFixupTo segs i fx)"
    using assms nz rv
    by (simp add: main_addRelocation_def Let_def not_less SrcOffset32_def R_386_32_def del: of_nat_add of_nat_Suc)
  ultimately show ?thesis
    using i by (simp add: length_appendFixupTo appendFixupTo_nth)
qed

text \<open>The relocation at \<open>0x10004\<close> of \<open>twoSegmentFile\<close>, against \<open>var\<close> (scenario S2).\<close>
theorem r386_32_appends_one_offset32_fixup_witness:
  "findSegment 0 twoSegments 0x10004 = Some (0, hd twoSegments) \<and>
   addRelocation \<lparr>r_offset = 0x10004, r_info = 0x201\<rparr> twoSegments twoSegmentSymbols =
     Inr (appendFixupTo twoSegments 0
            \<lparr>SrcType = 0x07, Src = 4, Target = \<lparr>Obj = 2, Off = 4\<rparr>, Add = 0\<rparr>) \<and>
   main_addRelocation \<lparr>r_offset = 0x10004, r_info = 0x201\<rparr> twoSegments twoSegmentSymbols =
     Inr (appendFixupTo twoSegments 0
            \<lparr>SrcType = 0x07, Src = 4, Target = \<lparr>Obj = 2, Off = 4\<rparr>, Add = 0\<rparr>) \<and>
   Fixups (object' (appendFixupTo twoSegments 0
            \<lparr>SrcType = 0x07, Src = 4, Target = \<lparr>Obj = 2, Off = 4\<rparr>, Add = 0\<rparr> ! 0)) =
     [\<lparr>SrcType = 0x07, Src = 4, Target = \<lparr>Obj = 2, Off = 4\<rparr>, Add = 0\<rparr>]"
proof -
  let ?rel = "\<lparr>r_offset = 0x10004, r_info = 0x201\<rparr>"
  let ?seg = "hd twoSegments"
  let ?sy = "twoSegmentSymbols ! 1"
  have h1: "findSegment 0 twoSegments (r_offset ?rel) = Some (0, ?seg)" by code_simp
  have h2: "(0::nat) + 1 < 2 ^ 32" by simp
  have h3: "drop_bit 8 (r_info ?rel) \<noteq> 0" by code_simp
  have h4: "drop_bit 8 (r_info ?rel) \<le> of_nat (length twoSegmentSymbols)" by code_simp
  have h5: "?sy = twoSegmentSymbols ! unat (drop_bit 8 (r_info ?rel) - 1)" by code_simp
  have h6: "Obj (sym_ref ?sy) \<noteq> 0" by code_simp
  have h7: "Obj (sym_ref ?sy) \<noteq> objAbsolute" by code_simp
  have h8: "r_info ?rel AND 0xff = R_386_32" by code_simp
  have h9: "(4 :: int32) = r_offset ?rel - addr ?seg" by code_simp
  have h10: "\<not> (4 :: int32) <s 0" by code_simp
  have h11: "unat (4 :: int32) + 4 \<le> length (Data (object' ?seg))" by code_simp
  have h12: "(0x20004 :: uint32) =
      le32 (Data (object' ?seg) ! unat (4 :: int32)) (Data (object' ?seg) ! (unat (4 :: int32) + 1))
        (Data (object' ?seg) ! (unat (4 :: int32) + 2)) (Data (object' ?seg) ! (unat (4 :: int32) + 3))"
    by code_simp
  have h13: "\<lparr>SrcType = 0x07, Src = 4, Target = \<lparr>Obj = 2, Off = 4\<rparr>, Add = 0\<rparr> =
      \<lparr>SrcType = 0x07, Src = (4 :: int32),
       Target = \<lparr>Obj = Obj (sym_ref ?sy), Off = Off (sym_ref ?sy) + (0x20004 - sym_addr ?sy)\<rparr>,
       Add = 0\<rparr>"
    by code_simp
  have e: "Fixups (object' (twoSegments ! 0)) = []" by code_simp
  from r386_32_appends_one_offset32_fixup [OF h1 h2 h3 h4 h5 h6 h7 h8 h9 h10 h11 h12 h13] h1 e
  show ?thesis by simp
qed

section \<open>Where appended fixups lie\<close>

lemma further_conversions:
  "readExecutable wrappingFile = Inr wrappingProgram"
  "ConvertToLELX wrappingFile = Inr wrappingProgram"
  "readExecutable descendingFile = Inr descendingProgram"
  "readExecutable absoluteFile = Inl (UnresolvedSymbol ''abs'' 2)"
  "ConvertToLELX absoluteFile = Inr absoluteProgram"
  by code_simp+

lemma sint_nonneg_uint:
  assumes "0 \<le> sint (w :: int32)"
  shows "sint w = uint w"
proof -
  have "sint w < 2 ^ 32" using sint_lt [of w] by simp
  then have "take_bit 32 (sint w) = sint w"
    using assms by (simp add: take_bit_int_eq_self)
  then show ?thesis by (simp add: uint_sint)
qed

lemma readValue_Inr:
  "readValue bs off = Inr val \<Longrightarrow> 0 \<le> sint off \<and> unat off + 4 \<le> length bs"
  by (auto simp: readValue_def Uint32_def word_sless_alt split: if_splits)

lemma emitted_bounds:
  assumes "emitted rel segs syms i fx"
  shows "0 \<le> sint (Src fx)"
    and "sint (Src fx) + 4 \<le> int (length (Data (object' (segs ! i))))"
proof -
  from emitted_props(4) [OF assms] obtain val where
    "readValue (Data (object' (segs ! i))) (Src fx) = Inr val" by blast
  from readValue_Inr [OF this] have a: "0 \<le> sint (Src fx)"
    and b: "unat (Src fx) + 4 \<le> length (Data (object' (segs ! i)))" by simp_all
  show "0 \<le> sint (Src fx)" by (rule a)
  show "sint (Src fx) + 4 \<le> int (length (Data (object' (segs ! i))))"
    using b sint_nonneg_uint [OF a] uint_nat [of "Src fx"] by linarith
qed

lemma contains_no_wrap:
  fixes a sz off :: uint32
  assumes "a \<le> off" and "off + 4 \<le> a + sz" and "off \<le> 0xFFFFFFFB"
  shows "unat (off - a) + 4 \<le> unat sz"
proof -
  have o4: "unat (off + 4) = unat off + 4"
    using assms(3) by (simp add: unat_word_ariths word_le_nat_alt)
  have d: "unat (off - a) = unat off - unat a"
    using assms(1) by (simp add: unat_sub)
  have le: "unat a \<le> unat off" using assms(1) by (simp add: word_le_nat_alt)
  have s: "unat (a + sz) \<le> unat a + unat sz"
    by (simp add: unat_word_ariths)
  have "unat off + 4 \<le> unat (a + sz)"
    using assms(2) o4 by (simp add: word_le_nat_alt)
  with s le d show ?thesis by simp
qed

lemma emitted_inside_size:
  assumes "emitted rel segs syms i fx" and "r_offset rel \<le> 0xFFFFFFFB"
  shows "sint (Src fx) + 4 \<le> uint (size' (segs ! i))"
proof -
  from emitted_props(2) [OF assms(1)]
  have c: "addr (segs ! i) \<le> r_offset rel" "r_offset rel + 4 \<le> addr (segs ! i) + size' (segs ! i)"
    by (simp_all add: contains_def)
  from contains_no_wrap [OF c assms(2)] emitted_props(3) [OF assms(1)]
  have "unat (Src fx) + 4 \<le> unat (size' (segs ! i))" by simp
  then show ?thesis
    using sint_nonneg_uint [OF emitted_bounds(1) [OF assms(1)]]
      uint_nat [of "Src fx"] uint_nat [of "size' (segs ! i)"]
    by linarith
qed


lemma appendFixupTo_fixupsInsideData:
  assumes "emitted rel segs syms i fx" and "fixupsInsideData (map object' segs)"
  shows "fixupsInsideData (map object' (appendFixupTo segs i fx))"
  unfolding fixupsInsideData_def
proof (intro ballI)
  fix obj g
  assume o: "obj \<in> set (map object' (appendFixupTo segs i fx))" and g: "g \<in> set (Fixups obj)"
  from o obtain j where j: "j < length segs" and oj: "obj = object' (appendFixupTo segs i fx ! j)"
    by (auto simp: in_set_conv_nth length_appendFixupTo)
  show "0 \<le> sint (Src g) \<and> sint (Src g) + 4 \<le> int (length (Data obj))"
  proof (cases "j = i \<and> g = fx")
    case True
    then show ?thesis
      using emitted_bounds [OF assms(1)] j oj by (simp add: appendFixupTo_nth)
  next
    case False
    then have "g \<in> set (Fixups (object' (segs ! j)))" and "Data obj = Data (object' (segs ! j))"
      using g j oj by (auto simp: appendFixupTo_nth split: if_splits)
    moreover have "object' (segs ! j) \<in> set (map object' segs)"
      using j by simp
    ultimately show ?thesis
      using assms(2) unfolding fixupsInsideData_def by metis
  qed
qed

lemma convert_fixupsInsideData:
  assumes add: "\<And>rel segs syms segs'. add rel segs syms = Inr segs' \<Longrightarrow>
             segs' = segs \<or> (\<exists>i fx. emitted rel segs syms i fx \<and> segs' = appendFixupTo segs i fx)"
    and run: "convert resolve add f = Inr p"
  shows "fixupsInsideData (Objects p)"
proof -
  have "\<exists>segs :: segment list. fixupsInsideData (map object' segs) \<and> Objects p = map object' segs"
  proof (rule convert_invariant [where P = "\<lambda>segs :: segment list. fixupsInsideData (map object' segs)"
           and add = add and resolve = resolve and f = f and p = p])
    show "\<And>rel segs syms segs'. add rel segs syms = Inr segs' \<Longrightarrow>
            segs' = segs \<or> (\<exists>i fx. emitted rel segs syms i fx \<and> segs' = appendFixupTo segs i fx)"
      by (rule add)
    show "\<And>rel (segs :: segment list) syms i fx. emitted rel segs syms i fx \<Longrightarrow>
            fixupsInsideData (map object' segs) \<Longrightarrow>
            fixupsInsideData (map object' (appendFixupTo segs i fx))"
      by (rule appendFixupTo_fixupsInsideData)
    show "\<And>segs :: segment list. \<forall>s \<in> set segs. Fixups (object' s) = [] \<and> Size (object' s) = size' s \<Longrightarrow>
            fixupsInsideData (map object' segs)"
      by (auto simp: fixupsInsideData_def)
    show "convert resolve add f = Inr p" by (rule run)
  qed
  then show ?thesis by auto
qed

lemma readLoadSegment_data:
  assumes "readLoadSegment i p = Inr seg"
    and "p_filesz p \<le> p_memsz p" and "p_memsz p \<le> 0xFFFFFFFF"
  shows "length (Data (object' seg)) \<le> unat (Size (object' seg))"
proof -
  have m: "unat (ucast (p_memsz p) :: uint32) = unat (p_memsz p)"
    using assms(3) by (simp add: unsigned_ucast_eq take_bit_nat_eq_self_iff word_le_nat_alt)
  have "unat (p_filesz p) \<le> unat (p_memsz p)"
    using assms(2) by (simp add: word_le_nat_alt)
  with m assms(1) show ?thesis
    by (auto simp: readLoadSegment_def Let_def split: if_splits)
qed

lemma assignSegmentsFrom_data:
  "assignSegmentsFrom i ps acc = Inr segs \<Longrightarrow>
   \<forall>pr \<in> set ps. p_type pr = PT_LOAD \<longrightarrow> p_filesz pr \<le> p_memsz pr \<and> p_memsz pr \<le> 0xFFFFFFFF \<Longrightarrow>
   \<forall>s \<in> set acc. length (Data (object' s)) \<le> unat (Size (object' s)) \<Longrightarrow>
   \<forall>s \<in> set segs. length (Data (object' s)) \<le> unat (Size (object' s))"
proof (induction ps arbitrary: i acc)
  case Nil
  then show ?case by simp
next
  case (Cons p ps)
  from Cons.prems(2) have tl: "\<forall>pr \<in> set ps. p_type pr = PT_LOAD \<longrightarrow>
      p_filesz pr \<le> p_memsz pr \<and> p_memsz pr \<le> 0xFFFFFFFF" by simp
  show ?case
  proof (cases "p_type p = PT_NULL \<or> p_type p = PT_NOTE \<or> p_type p = ptGNUEHFrame")
    case True
    with Cons.prems(1) have "assignSegmentsFrom (i + 1) ps acc = Inr segs" by simp
    from Cons.IH [OF this tl Cons.prems(3)] show ?thesis .
  next
    case False
    with Cons.prems(1) have ty: "p_type p = PT_LOAD"
      by (auto split: if_splits)
    from False Cons.prems(1) obtain seg where ld: "readLoadSegment i p = Inr seg"
      and rest: "assignSegmentsFrom (i + 1) ps (acc @ [seg]) = Inr segs"
      by (auto split: if_splits sum.splits)
    from Cons.prems(2) ty have "p_filesz p \<le> p_memsz p" "p_memsz p \<le> 0xFFFFFFFF" by simp_all
    from readLoadSegment_data [OF ld this]
    have "\<forall>s \<in> set (acc @ [seg]). length (Data (object' s)) \<le> unat (Size (object' s))"
      using Cons.prems(3) by auto
    from Cons.IH [OF rest tl this] show ?thesis .
  qed
qed

lemma appendFixupTo_data:
  assumes "\<forall>s \<in> set segs. length (Data (object' s)) \<le> unat (Size (object' s))"
  shows "\<forall>s \<in> set (appendFixupTo segs i fx). length (Data (object' s)) \<le> unat (Size (object' s))"
proof
  fix s assume "s \<in> set (appendFixupTo segs i fx)"
  then obtain j where j: "j < length segs" and s: "s = appendFixupTo segs i fx ! j"
    by (auto simp: in_set_conv_nth length_appendFixupTo)
  have "segs ! j \<in> set segs" using j by simp
  with assms have "length (Data (object' (segs ! j))) \<le> unat (Size (object' (segs ! j)))" by blast
  then show "length (Data (object' s)) \<le> unat (Size (object' s))"
    using j s by (auto simp: appendFixupTo_nth)
qed

lemma convert_dataWithinSize:
  assumes add: "\<And>rel segs syms segs'. add rel segs syms = Inr segs' \<Longrightarrow>
             segs' = segs \<or> (\<exists>i fx. emitted rel segs syms i fx \<and> segs' = appendFixupTo segs i fx)"
    and sizes: "\<forall>pr \<in> set (progs f). p_type pr = PT_LOAD \<longrightarrow>
                 p_filesz pr \<le> p_memsz pr \<and> p_memsz pr \<le> 0xFFFFFFFF"
    and run: "convert resolve add f = Inr p"
  shows "\<forall>obj \<in> set (Objects p). length (Data obj) \<le> unat (Size obj)"
proof -
  let ?P = "\<lambda>segs :: segment list. \<forall>s \<in> set segs. length (Data (object' s)) \<le> unat (Size (object' s))"
  from run obtain segs0 syms segs where a: "assignSegments f = Inr segs0"
    and r: "readSections add f segs0 syms = Inr segs" and p: "Objects p = map object' segs"
    by (auto simp: convert_def Let_def split: if_splits sum.splits)
  have P0: "?P segs0"
    using assignSegmentsFrom_data [of 0 "progs f" "[]" segs0] a sizes
    by (simp add: assignSegments_def)
  have "?P segs"
  proof (rule readSections_preserves [where P = ?P and add = add and syms = syms and f = f
           and segs = segs0 and segs' = segs])
    show "\<And>rel segs syms segs'. add rel segs syms = Inr segs' \<Longrightarrow>
            segs' = segs \<or> (\<exists>i fx. emitted rel segs syms i fx \<and> segs' = appendFixupTo segs i fx)"
      by (rule add)
    show "\<And>rel (segs :: segment list) i fx. emitted rel segs syms i fx \<Longrightarrow> ?P segs \<Longrightarrow>
            ?P (appendFixupTo segs i fx)"
      by (rule appendFixupTo_data)
    show "readSections add f segs0 syms = Inr segs" by (rule r)
    show "?P segs0" by (rule P0)
  qed
  with p show ?thesis by simp
qed

lemma convert_fixupsInsideSize:
  assumes add: "\<And>rel segs syms segs'. add rel segs syms = Inr segs' \<Longrightarrow>
             segs' = segs \<or> (\<exists>i fx. emitted rel segs syms i fx \<and> segs' = appendFixupTo segs i fx)"
    and sizes: "\<forall>pr \<in> set (progs f). p_type pr = PT_LOAD \<longrightarrow>
                 p_filesz pr \<le> p_memsz pr \<and> p_memsz pr \<le> 0xFFFFFFFF"
    and run: "convert resolve add f = Inr p"
  shows "\<forall>obj \<in> set (Objects p). \<forall>fx \<in> set (Fixups obj).
           0 \<le> sint (Src fx) \<and> sint (Src fx) + 4 \<le> uint (Size obj)"
proof (intro ballI)
  fix obj fx assume o: "obj \<in> set (Objects p)" and g: "fx \<in> set (Fixups obj)"
  from convert_fixupsInsideData [of add resolve f p, OF add run] o g
  have a: "0 \<le> sint (Src fx)" and b: "sint (Src fx) + 4 \<le> int (length (Data obj))"
    by (auto simp: fixupsInsideData_def)
  from convert_dataWithinSize [of add f resolve p, OF add sizes run] o
  have "length (Data obj) \<le> unat (Size obj)" by blast
  with a b show "0 \<le> sint (Src fx) \<and> sint (Src fx) + 4 \<le> uint (Size obj)"
    using uint_nat [of "Size obj"] by linarith
qed

text \<open>
  Claim C8. A relocation that no segment contains is skipped without error. Every fixup
  that \<open>addRelocation\<close> appends, in either package, sits in a segment whose range contains
  the four bytes at the relocation offset, and satisfies \<open>0 \<le> src\<close> and
  \<open>src + 4 \<le> virtual_size\<close> of its object: the four bytes at the site are read from the
  object's data before the fixup is made, so the bound holds for an object whose data is
  no longer than its virtual size, and it follows from the containment alone when the four
  bytes do not wrap around the address space. For a file whose loadable segments have a
  file size of at most their memory size, both 32-bit fields, as the format requires,
  every fixup of every object of a program that either converter returns satisfies
  \<open>0 \<le> src\<close> and \<open>src + 4 \<le> virtual_size\<close>.
\<close>
theorem appended_fixup_lies_inside_virtual_size:
  "(findSegment 0 segs (r_offset rel) = None \<longrightarrow>
      addRelocation rel segs syms = Inr segs \<and> main_addRelocation rel segs syms = Inr segs) \<and>
   (\<forall>segs'. addRelocation rel segs syms = Inr segs' \<or> main_addRelocation rel segs syms = Inr segs' \<longrightarrow>
      segs' = segs \<or>
      (\<exists>i fx. i < length segs \<and> segs' = appendFixupTo segs i fx \<and>
         contains (segs ! i) \<lparr>addr = r_offset rel, size' = 4\<rparr> \<and>
         0 \<le> sint (Src fx) \<and>
         sint (Src fx) + 4 \<le> int (length (Data (object' (segs ! i)))) \<and>
         (length (Data (object' (segs ! i))) \<le> unat (Size (object' (segs ! i))) \<longrightarrow>
            sint (Src fx) + 4 \<le> uint (Size (object' (segs ! i)))) \<and>
         (r_offset rel \<le> 0xFFFFFFFB \<and> Size (object' (segs ! i)) = size' (segs ! i) \<longrightarrow>
            sint (Src fx) + 4 \<le> uint (Size (object' (segs ! i)))))) \<and>
   ((\<forall>pr \<in> set (progs f). p_type pr = PT_LOAD \<longrightarrow>
        p_filesz pr \<le> p_memsz pr \<and> p_memsz pr \<le> 0xFFFFFFFF) \<longrightarrow>
    (\<forall>p. ConvertToLELX f = Inr p \<or> readExecutable f = Inr p \<longrightarrow>
       (\<forall>obj \<in> set (Objects p). \<forall>fx \<in> set (Fixups obj).
          0 \<le> sint (Src fx) \<and> sint (Src fx) + 4 \<le> uint (Size obj))))"
proof (intro conjI impI allI)
  assume "findSegment 0 segs (r_offset rel) = None"
  then show "addRelocation rel segs syms = Inr segs" "main_addRelocation rel segs syms = Inr segs"
    by (simp_all add: addRelocation_def main_addRelocation_def)
next
  fix p
  assume sizes: "\<forall>pr \<in> set (progs f). p_type pr = PT_LOAD \<longrightarrow>
        p_filesz pr \<le> p_memsz pr \<and> p_memsz pr \<le> 0xFFFFFFFF"
    and run: "ConvertToLELX f = Inr p \<or> readExecutable f = Inr p"
  from run show "\<forall>obj \<in> set (Objects p). \<forall>fx \<in> set (Fixups obj).
          0 \<le> sint (Src fx) \<and> sint (Src fx) + 4 \<le> uint (Size obj)"
  proof
    assume "ConvertToLELX f = Inr p"
    then have "convert resolveSymbols addRelocation f = Inr p" by (simp add: ConvertToLELX_def)
    from convert_fixupsInsideSize [of addRelocation f resolveSymbols p, OF addRelocation_cases sizes this]
    show ?thesis .
  next
    assume "readExecutable f = Inr p"
    then have "convert main_resolveSymbols main_addRelocation f = Inr p"
      by (simp add: readExecutable_def)
    from convert_fixupsInsideSize [of main_addRelocation f main_resolveSymbols p,
           OF main_addRelocation_cases sizes this]
    show ?thesis .
  qed
next
  fix segs'
  assume "addRelocation rel segs syms = Inr segs' \<or> main_addRelocation rel segs syms = Inr segs'"
  then have "segs' = segs \<or> (\<exists>i fx. emitted rel segs syms i fx \<and> segs' = appendFixupTo segs i fx)"
    using addRelocation_cases main_addRelocation_cases by blast
  then show "segs' = segs \<or>
      (\<exists>i fx. i < length segs \<and> segs' = appendFixupTo segs i fx \<and>
         contains (segs ! i) \<lparr>addr = r_offset rel, size' = 4\<rparr> \<and>
         0 \<le> sint (Src fx) \<and>
         sint (Src fx) + 4 \<le> int (length (Data (object' (segs ! i)))) \<and>
         (length (Data (object' (segs ! i))) \<le> unat (Size (object' (segs ! i))) \<longrightarrow>
            sint (Src fx) + 4 \<le> uint (Size (object' (segs ! i)))) \<and>
         (r_offset rel \<le> 0xFFFFFFFB \<and> Size (object' (segs ! i)) = size' (segs ! i) \<longrightarrow>
            sint (Src fx) + 4 \<le> uint (Size (object' (segs ! i)))))"
  proof
    assume "segs' = segs"
    then show ?thesis by simp
  next
    assume "\<exists>i fx. emitted rel segs syms i fx \<and> segs' = appendFixupTo segs i fx"
    then obtain i fx where e: "emitted rel segs syms i fx" and s: "segs' = appendFixupTo segs i fx"
      by blast
    have "length (Data (object' (segs ! i))) \<le> unat (Size (object' (segs ! i))) \<Longrightarrow>
            sint (Src fx) + 4 \<le> uint (Size (object' (segs ! i)))"
      using emitted_bounds(2) [OF e] uint_nat [of "Size (object' (segs ! i))"] by linarith
    moreover have "r_offset rel \<le> 0xFFFFFFFB \<Longrightarrow> Size (object' (segs ! i)) = size' (segs ! i) \<Longrightarrow>
            sint (Src fx) + 4 \<le> uint (Size (object' (segs ! i)))"
      using emitted_inside_size [OF e] by simp
    ultimately show ?thesis
      using emitted_props(1,2) [OF e] emitted_bounds [OF e] s by blast
  qed
qed

text \<open>
  A relocation at \<open>0x30000\<close>, outside both segments of \<open>twoSegmentFile\<close>, is skipped. The
  segments of the file have sixteen bytes in the file and in memory; the fixup at offset 8
  of the first object of the converted file ends at 12, inside the virtual size 16.
\<close>
theorem appended_fixup_lies_inside_virtual_size_witness:
  "findSegment 0 twoSegments 0x30000 = None \<and>
   addRelocation \<lparr>r_offset = 0x30000, r_info = 0x201\<rparr> twoSegments twoSegmentSymbols =
     Inr twoSegments \<and>
   main_addRelocation \<lparr>r_offset = 0x30000, r_info = 0x201\<rparr> twoSegments twoSegmentSymbols =
     Inr twoSegments \<and>
   p_filesz (hd (progs twoSegmentFile)) = 16 \<and> p_memsz (hd (progs twoSegmentFile)) = 16 \<and>
   ConvertToLELX twoSegmentFile = Inr twoSegmentProgram \<and>
   readExecutable twoSegmentFile = Inr twoSegmentProgram \<and>
   Src (Fixups (hd (Objects twoSegmentProgram)) ! 1) = 8 \<and>
   Size (hd (Objects twoSegmentProgram)) = 16 \<and>
   sint (Src (Fixups (hd (Objects twoSegmentProgram)) ! 1)) + 4
     \<le> uint (Size (hd (Objects twoSegmentProgram)))"
proof -
  have h: "findSegment 0 twoSegments (r_offset \<lparr>r_offset = 0x30000, r_info = 0x201\<rparr>) = None"
    by code_simp
  have s: "\<forall>pr \<in> set (progs twoSegmentFile). p_type pr = PT_LOAD \<longrightarrow>
        p_filesz pr \<le> p_memsz pr \<and> p_memsz pr \<le> 0xFFFFFFFF"
    by (simp add: twoSegmentFile_def)
  have d: "Src (Fixups (hd (Objects twoSegmentProgram)) ! 1) = 8"
    "Size (hd (Objects twoSegmentProgram)) = 16"
    "p_filesz (hd (progs twoSegmentFile)) = 16" "p_memsz (hd (progs twoSegmentFile)) = 16"
    "hd (Objects twoSegmentProgram) \<in> set (Objects twoSegmentProgram)"
    "Fixups (hd (Objects twoSegmentProgram)) ! 1 \<in> set (Fixups (hd (Objects twoSegmentProgram)))"
    by (simp_all add: twoSegmentProgram_def twoSegmentFile_def)
  from appended_fixup_lies_inside_virtual_size
         [of twoSegments "\<lparr>r_offset = 0x30000, r_info = 0x201\<rparr>" twoSegmentSymbols twoSegmentFile]
       h s d twoSegmentFile_eval
  show ?thesis by simp
qed

text \<open>
  The bound for whole programs rests on the file size of a loadable segment being at most
  its memory size. \<open>wrappingFile\<close> breaks that rule of the format, with sixteen file bytes
  for a segment of four bytes whose relocation ends at the top of the address space:
  \<open>contains\<close> holds in 32-bit arithmetic, the value at offset 12 of the data is read, and
  both converters append a fixup with \<open>src = 12\<close> to an object of virtual size 4.
\<close>
lemma file_size_beyond_memory_size:
  "p_filesz (hd (progs wrappingFile)) = 16 \<and> p_memsz (hd (progs wrappingFile)) = 4 \<and>
   readExecutable wrappingFile = Inr wrappingProgram \<and>
   ConvertToLELX wrappingFile = Inr wrappingProgram \<and>
   Src (hd (Fixups (hd (Objects wrappingProgram)))) = 12 \<and>
   Size (hd (Objects wrappingProgram)) = 4"
  by code_simp

section \<open>Address resolution and the stack symbol\<close>

lemma resolveAddrFrom_first:
  "i < length segs \<Longrightarrow> hasAddr (segs ! i) a \<Longrightarrow> \<forall>j < i. \<not> hasAddr (segs ! j) a \<Longrightarrow>
   resolveAddrFrom k segs a = \<lparr>Obj = of_nat (k + i + 1), Off = a - addr (segs ! i)\<rparr>"
proof (induction segs arbitrary: k i)
  case Nil
  then show ?case by simp
next
  case (Cons s segs)
  show ?case
  proof (cases i)
    case 0
    with Cons.prems show ?thesis by simp
  next
    case (Suc n)
    with Cons.prems have "\<not> hasAddr s a" by auto
    moreover from Cons.prems Suc have "n < length segs" "hasAddr (segs ! n) a"
      "\<forall>j < n. \<not> hasAddr (segs ! j) a" by auto
    from Cons.IH [OF this, of "k + 1"] have
      "resolveAddrFrom (k + 1) segs a = \<lparr>Obj = of_nat (k + 1 + n + 1), Off = a - addr (segs ! n)\<rparr>" .
    ultimately show ?thesis
      using Suc by (simp del: of_nat_add of_nat_Suc add: add.commute add.left_commute)
  qed
qed

lemma hasAddr_end:
  "unat (addr s) + unat (size' s) < 2 ^ 32 \<Longrightarrow> hasAddr s (addr s + size' s)"
  for s :: "'a addrRange_scheme"
proof -
  assume a: "unat (addr s) + unat (size' s) < 2 ^ 32"
  then have "unat (addr s + size' s) = unat (addr s) + unat (size' s)"
    by (simp add: unat_word_ariths)
  then show ?thesis
    by (simp add: hasAddr_def word_le_nat_alt)
qed

lemma findStack_no_match:
  "\<forall>t \<in> set post. sym_name t \<noteq> ''_stack_end'' \<Longrightarrow>
   foldl (\<lambda>stack sy. if sym_name sy = ''_stack_end'' then sym_ref sy else stack) r post = r"
  by (induction post arbitrary: r) simp_all

lemma findStack_last:
  "sym_name sy = ''_stack_end'' \<Longrightarrow> \<forall>t \<in> set post. sym_name t \<noteq> ''_stack_end'' \<Longrightarrow>
   findStack (pre @ [sy] @ post) = sym_ref sy"
  by (simp add: findStack_def findStack_no_match)

lemma twoSegmentFile_relocated:
  "readSections main_addRelocation twoSegmentFile twoSegments twoSegmentSymbols =
     Inr twoSegmentsTranslated"
  "readSections addRelocation twoSegmentFile twoSegments twoSegmentSymbols =
     Inr twoSegmentsTranslated"
  by code_simp+

lemma ascending_sum:
  fixes a b c :: uint32
  assumes "unat a + unat b \<le> unat c"
  shows "unat (a + b) = unat a + unat b"
proof -
  have "unat c < 2 ^ 32" using unsigned_less [of c] by simp
  with assms have "unat a + unat b < 2 ^ 32" by simp
  then show ?thesis by (simp add: unat_word_ariths)
qed

lemma ascending_no_earlier_hasAddr:
  fixes segs :: "segment list"
  assumes asc: "\<forall>j < i. unat (addr (segs ! j)) + unat (size' (segs ! j)) \<le> unat (addr (segs ! i))"
    and nowrap: "unat (addr (segs ! i)) + unat (size' (segs ! i)) < 2 ^ 32"
    and nonempty: "size' (segs ! i) \<noteq> 0"
  shows "\<forall>j < i. \<not> hasAddr (segs ! j) (addr (segs ! i) + size' (segs ! i))"
proof (intro allI impI)
  fix j assume j: "j < i"
  with asc have le: "unat (addr (segs ! j)) + unat (size' (segs ! j)) \<le> unat (addr (segs ! i))"
    by blast
  have e: "unat (addr (segs ! j) + size' (segs ! j)) = unat (addr (segs ! j)) + unat (size' (segs ! j))"
    by (rule ascending_sum [OF le])
  have a: "unat (addr (segs ! i) + size' (segs ! i)) = unat (addr (segs ! i)) + unat (size' (segs ! i))"
    using nowrap by (simp add: unat_word_ariths)
  have "0 < unat (size' (segs ! i))" using nonempty by (simp add: unat_gt_0)
  with le e a show "\<not> hasAddr (segs ! j) (addr (segs ! i) + size' (segs ! i))"
    by (simp add: hasAddr_def word_le_nat_alt)
qed

lemma ascending_no_earlier_section:
  fixes segs :: "segment list"
  assumes asc: "\<forall>j < i. unat (addr (segs ! j)) + unat (size' (segs ! j)) \<le> unat (addr (segs ! i))"
    and sa: "addr (segs ! i) \<le> sa"
  shows "\<forall>j < i. \<not> (addr (segs ! j) \<le> sa \<and> sa < addr (segs ! j) + size' (segs ! j))"
proof (intro allI impI)
  fix j assume j: "j < i"
  with asc have le: "unat (addr (segs ! j)) + unat (size' (segs ! j)) \<le> unat (addr (segs ! i))"
    by blast
  have e: "unat (addr (segs ! j) + size' (segs ! j)) = unat (addr (segs ! j)) + unat (size' (segs ! j))"
    by (rule ascending_sum [OF le])
  have "unat (addr (segs ! i)) \<le> unat sa" using sa by (simp add: word_le_nat_alt)
  with le e show "\<not> (addr (segs ! j) \<le> sa \<and> sa < addr (segs ! j) + size' (segs ! j))"
    by (simp add: word_less_nat_alt)
qed

lemma sectionObject_first:
  "i < length segs \<Longrightarrow> addr (segs ! i) \<le> sa \<and> sa < addr (segs ! i) + size' (segs ! i) \<Longrightarrow>
   \<forall>j < i. \<not> (addr (segs ! j) \<le> sa \<and> sa < addr (segs ! j) + size' (segs ! j)) \<Longrightarrow>
   sectionObject segs sa = int (index (segs ! i))"
proof (induction segs arbitrary: i)
  case Nil
  then show ?case by simp
next
  case (Cons s segs)
  show ?case
  proof (cases i)
    case 0
    with Cons.prems show ?thesis by simp
  next
    case (Suc n)
    with Cons.prems have "\<not> (addr s \<le> sa \<and> sa < addr s + size' s)" by auto
    moreover from Cons.prems Suc have "n < length segs"
      "addr (segs ! n) \<le> sa \<and> sa < addr (segs ! n) + size' (segs ! n)"
      "\<forall>j < n. \<not> (addr (segs ! j) \<le> sa \<and> sa < addr (segs ! j) + size' (segs ! j))" by auto
    from Cons.IH [OF this] have "sectionObject segs sa = int (index (segs ! n))" .
    ultimately show ?thesis using Suc by auto
  qed
qed

lemma resolveSymbol_name:
  "resolveSymbol segs so x = Inr y \<Longrightarrow> sym_name y = st_name x"
  by (auto simp: resolveSymbol_def Let_def split: if_splits)

lemma resolveSymbolsLoop_names:
  "resolveSymbolsLoop segs so xs = Inr ys \<Longrightarrow> \<forall>t \<in> set ys. sym_name t \<in> st_name ` set xs"
proof (induction xs arbitrary: ys)
  case Nil
  then show ?case by simp
next
  case (Cons x xs)
  from Cons.prems obtain y ys' where y: "resolveSymbol segs so x = Inr y"
    and r: "resolveSymbolsLoop segs so xs = Inr ys'" and ys: "ys = y # ys'"
    by (auto split: sum.splits)
  from Cons.IH [OF r] resolveSymbol_name [OF y] ys show ?case by auto
qed

lemma resolveSymbolsLoop_split:
  "resolveSymbolsLoop segs so (pre @ [e] @ post) = Inr esyms \<Longrightarrow>
   \<exists>pre' e' post'. esyms = pre' @ [e'] @ post' \<and> resolveSymbol segs so e = Inr e' \<and>
      (\<forall>t \<in> set post'. sym_name t \<in> st_name ` set post)"
proof (induction pre arbitrary: esyms)
  case Nil
  from Nil obtain y ys' where y: "resolveSymbol segs so e = Inr y"
    and r: "resolveSymbolsLoop segs so post = Inr ys'" and ys: "esyms = y # ys'"
    by (auto split: sum.splits)
  from resolveSymbolsLoop_names [OF r] have "\<forall>t \<in> set ys'. sym_name t \<in> st_name ` set post" .
  with y ys have "esyms = [] @ [y] @ ys' \<and> resolveSymbol segs so e = Inr y \<and>
      (\<forall>t \<in> set ys'. sym_name t \<in> st_name ` set post)" by simp
  then show ?case by blast
next
  case (Cons x pre)
  from Cons.prems obtain y ys' where y: "resolveSymbol segs so x = Inr y"
    and r: "resolveSymbolsLoop segs so (pre @ [e] @ post) = Inr ys'" and ys: "esyms = y # ys'"
    by (auto split: sum.splits)
  from Cons.IH [OF r] obtain pre' e' post' where
    "ys' = pre' @ [e'] @ post'" "resolveSymbol segs so e = Inr e'"
    "\<forall>t \<in> set post'. sym_name t \<in> st_name ` set post" by blast
  with ys have "esyms = (y # pre') @ [e'] @ post' \<and> resolveSymbol segs so e = Inr e' \<and>
      (\<forall>t \<in> set post'. sym_name t \<in> st_name ` set post)" by simp
  then show ?case by blast
qed

text \<open>
  Claim C9. \<open>hasAddr x a\<close> holds iff \<open>addr \<le> a \<le> addr + size\<close> in 32-bit arithmetic,
  so the address one past the end of a segment belongs to the segment, and \<open>resolveAddr\<close>
  resolves it to that segment, at the offset that is the virtual size. Take a file that
  passes the checks of the header, whose entry point resolves, and whose loadable segments
  are listed in ascending order without overlap up to the segment at position \<open>i\<close>, as
  the format requires; let that segment be not empty and end below \<open>2^32\<close>, and let the
  last symbol named \<open>_stack_end\<close> have the value base plus virtual size of that segment.
  Then, whenever the relocations of the file are translated without error, the conversion
  of the root package succeeds, with the stack reference (object \<open>i + 1\<close>, offset =
  virtual size). Package \<open>elf\<close> takes the object of a symbol from the section of the
  symbol, through the \<open>index\<close> field of the segment that holds the section; there the
  conversion succeeds with the same stack reference when the section of \<open>_stack_end\<close>
  lies in the segment and the segment's \<open>index\<close> is its position \<open>i\<close>.
\<close>
theorem stack_end_at_segment_end_is_accepted:
  assumes hdr: "e_class f = ELFCLASS32" "e_data f = ELFDATA2LSB" "e_type f = ET_EXEC"
      "e_machine f = EM_386"
    and segs: "assignSegments f = Inr segs"
    and entry: "Obj (resolveAddr segs (ucast (e_entry f))) \<noteq> 0"
    and syms: "symbols f = Some (pre @ [e] @ post)"
    and name: "st_name e = ''_stack_end''"
    and last: "\<forall>t \<in> set post. st_name t \<noteq> ''_stack_end''"
    and i: "i < length segs" "i + 1 < 2 ^ 32"
    and val: "ucast (st_value e) = addr (segs ! i) + size' (segs ! i)"
    and nowrap: "unat (addr (segs ! i)) + unat (size' (segs ! i)) < 2 ^ 32"
    and nonempty: "size' (segs ! i) \<noteq> 0"
    and asc: "\<forall>j < i. unat (addr (segs ! j)) + unat (size' (segs ! j)) \<le> unat (addr (segs ! i))"
  shows "(\<forall>(x :: segment) a. hasAddr x a = (addr x \<le> a \<and> a \<le> addr x + size' x)) \<and>
         hasAddr (segs ! i) (addr (segs ! i) + size' (segs ! i)) \<and>
         resolveAddr segs (addr (segs ! i) + size' (segs ! i)) =
           \<lparr>Obj = of_nat (i + 1), Off = size' (segs ! i)\<rparr> \<and>
         Size (object' (segs ! i)) = size' (segs ! i) \<and>
         (\<forall>msyms msegs.
            main_resolveSymbols f segs = Inr msyms \<and>
            readSections main_addRelocation f segs msyms = Inr msegs \<longrightarrow>
            readExecutable f =
              Inr \<lparr>Entry = resolveAddr segs (ucast (e_entry f)),
                   Stack = \<lparr>Obj = of_nat (i + 1), Off = size' (segs ! i)\<rparr>,
                   Objects = map object' msegs\<rparr>) \<and>
         (\<forall>esyms esegs.
            0 \<le> st_shndx e \<and> st_shndx e < int (length (sections f)) \<and>
            addr (segs ! i) \<le> ucast (sh_addr (sections f ! nat (st_shndx e))) \<and>
            ucast (sh_addr (sections f ! nat (st_shndx e))) < addr (segs ! i) + size' (segs ! i) \<and>
            index (segs ! i) = i \<and>
            resolveSymbols f segs = Inr esyms \<and>
            readSections addRelocation f segs esyms = Inr esegs \<longrightarrow>
            ConvertToLELX f =
              Inr \<lparr>Entry = resolveAddr segs (ucast (e_entry f)),
                   Stack = \<lparr>Obj = of_nat (i + 1), Off = size' (segs ! i)\<rparr>,
                   Objects = map object' esegs\<rparr>)"
proof -
  let ?a = "addr (segs ! i) + size' (segs ! i)"
  let ?st = "\<lparr>Obj = (of_nat (i + 1) :: int32), Off = size' (segs ! i)\<rparr>"
  let ?g = "\<lambda>esym. \<lparr>sym_addr = ucast (st_value esym),
                     sym_ref = resolveAddr segs (ucast (st_value esym)),
                     sym_name = st_name esym\<rparr>"
  have h: "hasAddr (segs ! i) ?a"
    by (rule hasAddr_end [OF nowrap])
  have ne: "\<forall>j < i. \<not> hasAddr (segs ! j) ?a"
    by (rule ascending_no_earlier_hasAddr [OF asc nowrap nonempty])
  have r: "resolveAddr segs ?a = ?st"
    using resolveAddrFrom_first [OF i(1) h ne, of 0]
    by (simp add: resolveAddr_def del: of_nat_add of_nat_Suc)
  have sz: "Size (object' (segs ! i)) = size' (segs ! i)"
    using assignSegments_fresh [OF segs] i(1) by simp
  have "unat (of_nat (i + 1) :: int32) = i + 1"
    by (rule unat_of_nat32 [OF i(2)])
  then have nz: "(of_nat (i + 1) :: int32) \<noteq> 0"
    by (auto simp del: of_nat_add of_nat_Suc)
  have root: "readExecutable f =
         Inr \<lparr>Entry = resolveAddr segs (ucast (e_entry f)), Stack = ?st,
              Objects = map object' msegs\<rparr>"
    if ms: "main_resolveSymbols f segs = Inr msyms"
      and rs: "readSections main_addRelocation f segs msyms = Inr msegs" for msyms msegs
  proof -
    have m: "msyms = map ?g pre @ [?g e] @ map ?g post"
      using ms syms by (simp add: main_resolveSymbols_def)
    have "findStack msyms = resolveAddr segs ?a"
      unfolding m using findStack_last [of "?g e" "map ?g post" "map ?g pre"] name last val by simp
    with r have st: "findStack msyms = ?st" by simp
    show ?thesis
      using hdr segs entry ms rs st nz
      by (simp add: readExecutable_def convert_def Let_def del: of_nat_add of_nat_Suc)
  qed
  have pkg: "ConvertToLELX f =
         Inr \<lparr>Entry = resolveAddr segs (ucast (e_entry f)), Stack = ?st,
              Objects = map object' esegs\<rparr>"
    if sh: "0 \<le> st_shndx e" "st_shndx e < int (length (sections f))"
      and sa: "addr (segs ! i) \<le> ucast (sh_addr (sections f ! nat (st_shndx e)))"
        "ucast (sh_addr (sections f ! nat (st_shndx e))) < addr (segs ! i) + size' (segs ! i)"
      and ix: "index (segs ! i) = i"
      and es: "resolveSymbols f segs = Inr esyms"
      and rs: "readSections addRelocation f segs esyms = Inr esegs" for esyms esegs
  proof -
    let ?so = "map (\<lambda>s. sectionObject segs (ucast (sh_addr s))) (sections f)"
    let ?sa = "(ucast (sh_addr (sections f ! nat (st_shndx e))) :: uint32)"
    from es syms have "resolveSymbolsLoop segs ?so (pre @ [e] @ post) = Inr esyms"
      by (simp add: resolveSymbols_def Let_def)
    from resolveSymbolsLoop_split [OF this] obtain pre' e' post' where
      m: "esyms = pre' @ [e'] @ post'" and e': "resolveSymbol segs ?so e = Inr e'"
      and po: "\<forall>t \<in> set post'. sym_name t \<in> st_name ` set post" by blast
    have k: "nat (st_shndx e) < length (sections f)" using sh by simp
    have "sectionObject segs ?sa = int (index (segs ! i))"
      using sectionObject_first [OF i(1) _ ascending_no_earlier_section [OF asc sa(1)]] sa
      by blast
    then have so: "?so ! nat (st_shndx e) = int i" using k ix by simp
    have ref: "sym_ref e' = ?st" and nm: "sym_name e' = ''_stack_end''"
      using e' sh so i(1) val name
      by (auto simp: resolveSymbol_def Let_def split: if_splits)
    have "\<forall>t \<in> set post'. sym_name t \<noteq> ''_stack_end''" using po last by auto
    from findStack_last [OF nm this, of pre'] m ref have st: "findStack esyms = ?st" by simp
    show ?thesis
      using hdr segs entry es rs st nz
      by (simp add: ConvertToLELX_def convert_def Let_def del: of_nat_add of_nat_Suc)
  qed
  show ?thesis
    using h r sz root pkg by (simp add: hasAddr_def del: of_nat_add of_nat_Suc)
qed

text \<open>
  In \<open>twoSegmentFile\<close> the symbol \<open>_stack_end\<close> is the end \<open>0x20010\<close> of the second
  segment, and its section is the one at \<open>0x20000\<close>; both converters return the program
  with the stack reference (object 2, offset 16).
\<close>
theorem stack_end_at_segment_end_is_accepted_witness:
  "assignSegments twoSegmentFile = Inr twoSegments \<and>
   st_value (hd (the (symbols twoSegmentFile))) = 0x20010 \<and>
   addr (twoSegments ! 1) + size' (twoSegments ! 1) = 0x20010 \<and>
   hasAddr (twoSegments ! 1) 0x20010 \<and>
   resolveAddr twoSegments 0x20010 = \<lparr>Obj = 2, Off = 16\<rparr> \<and>
   readExecutable twoSegmentFile = Inr twoSegmentProgram \<and>
   ConvertToLELX twoSegmentFile = Inr twoSegmentProgram \<and>
   Stack twoSegmentProgram = \<lparr>Obj = 2, Off = 16\<rparr>"
proof -
  let ?e = "\<lparr>st_name = ''_stack_end'', st_value = 0x20010, st_shndx = 2\<rparr>"
  let ?post = "[\<lparr>st_name = ''var'', st_value = 0x20004, st_shndx = 2\<rparr>,
                \<lparr>st_name = ''fn'', st_value = 0x10008, st_shndx = 1\<rparr>]"
  have hd: "e_class twoSegmentFile = ELFCLASS32" "e_data twoSegmentFile = ELFDATA2LSB"
    "e_type twoSegmentFile = ET_EXEC" "e_machine twoSegmentFile = EM_386"
    by (simp_all add: twoSegmentFile_def ELFCLASS32_def ELFDATA2LSB_def ET_EXEC_def EM_386_def)
  have h1: "assignSegments twoSegmentFile = Inr twoSegments" by (rule twoSegmentFile_eval(1))
  have en: "resolveAddr twoSegments (ucast (e_entry twoSegmentFile)) = \<lparr>Obj = 1, Off = 0\<rparr>"
    by code_simp
  then have h0: "Obj (resolveAddr twoSegments (ucast (e_entry twoSegmentFile))) \<noteq> 0" by simp
  have h2: "symbols twoSegmentFile = Some ([] @ [?e] @ ?post)"
    by (simp add: twoSegmentFile_def)
  have h3: "st_name ?e = ''_stack_end''" by simp
  have h4: "\<forall>t \<in> set ?post. st_name t \<noteq> ''_stack_end''" by simp
  have h5: "1 < length twoSegments" by (simp add: twoSegments_def)
  have h6: "(1::nat) + 1 < 2 ^ 32" by simp
  have h7: "ucast (st_value ?e) = addr (twoSegments ! 1) + size' (twoSegments ! 1)"
    by (simp add: twoSegments_def)
  have h8: "unat (addr (twoSegments ! 1)) + unat (size' (twoSegments ! 1)) < 2 ^ 32"
    by (simp add: twoSegments_def)
  have h9: "size' (twoSegments ! 1) \<noteq> 0" by (simp add: twoSegments_def)
  have h10: "\<forall>j < 1. unat (addr (twoSegments ! j)) + unat (size' (twoSegments ! j))
               \<le> unat (addr (twoSegments ! 1))"
    by (simp add: twoSegments_def)
  have sec: "0 \<le> st_shndx ?e" "st_shndx ?e < int (length (sections twoSegmentFile))"
    "addr (twoSegments ! 1) \<le> ucast (sh_addr (sections twoSegmentFile ! nat (st_shndx ?e)))"
    "ucast (sh_addr (sections twoSegmentFile ! nat (st_shndx ?e)))
       < addr (twoSegments ! 1) + size' (twoSegments ! 1)"
    "index (twoSegments ! 1) = 1"
    by (simp_all add: twoSegmentFile_def twoSegments_def)
  have v: "st_value (hd (the (symbols twoSegmentFile))) = 0x20010"
    "addr (twoSegments ! 1) + size' (twoSegments ! 1) = 0x20010"
    "size' (twoSegments ! 1) = 16"
    "Stack twoSegmentProgram = \<lparr>Obj = 2, Off = 16\<rparr>"
    "twoSegmentProgram = \<lparr>Entry = \<lparr>Obj = 1, Off = 0\<rparr>, Stack = \<lparr>Obj = 2, Off = 16\<rparr>,
        Objects = map object' twoSegmentsTranslated\<rparr>"
    by (simp_all add: twoSegmentFile_def twoSegments_def twoSegmentProgram_def
          twoSegmentsTranslated_def)
  from stack_end_at_segment_end_is_accepted [OF hd h1 h0 h2 h3 h4 h5 h6 h7 h8 h9 h10]
    sec twoSegmentFile_eval(2,3) twoSegmentFile_relocated h1 v en
  show ?thesis by simp
qed

text \<open>
  The order of the segments matters to the root package, which resolves the value of the
  symbol to the first segment that has it. In \<open>descendingFile\<close> the loadable segments are
  listed with the higher address first, against the rule of the format, and the value of
  \<open>_stack_end\<close>, the end \<open>0x11000\<close> of the segment at position 1, is also the base of
  the segment at position 0: the root package yields the stack reference (object 1,
  offset 0), package \<open>elf\<close> (object 2, offset \<open>0x1000\<close>).
\<close>
lemma descending_segments:
  "readExecutable descendingFile = Inr descendingProgram \<and>
   Addr (Objects descendingProgram ! 1) + Size (Objects descendingProgram ! 1) = 0x11000 \<and>
   Stack descendingProgram = \<lparr>Obj = 1, Off = 0\<rparr> \<and>
   ConvertToLELX descendingFile = Inr (descendingProgram\<lparr>Stack := \<lparr>Obj = 2, Off = 0x1000\<rparr>\<rparr>)"
  by code_simp

section \<open>Absolute symbols\<close>

text \<open>
  Package \<open>elf\<close> marks a symbol of section \<open>SHN_ABS\<close> with \<open>objAbsolute\<close> (as long as
  \<open>SHN_ABS\<close> is no index of a section of the file) and skips a relocation against it.
\<close>

lemma objAbsolute_value: "objAbsolute = 0x7FFFFFFF"
  by code_simp

lemma resolveSymbol_absolute:
  "st_shndx esym = SHN_ABS \<Longrightarrow> length secObjects \<le> 0xfff1 \<Longrightarrow>
   resolveSymbol segs secObjects esym =
     Inr \<lparr>sym_addr = ucast (st_value esym), sym_ref = \<lparr>Obj = objAbsolute, Off = 0\<rparr>,
          sym_name = st_name esym\<rparr>"
  by (simp add: resolveSymbol_def SHN_ABS_def)

lemma addRelocation_absolute_skipped:
  "drop_bit 8 (r_info rel) \<noteq> 0 \<Longrightarrow> drop_bit 8 (r_info rel) \<le> of_nat (length syms) \<Longrightarrow>
   Obj (sym_ref (syms ! unat (drop_bit 8 (r_info rel) - 1))) = objAbsolute \<Longrightarrow>
   addRelocation rel segs syms = Inr segs"
  by (auto simp: addRelocation_def Let_def not_less objAbsolute_value split: option.splits)

text \<open>
  Claim C7 fails on the code of the root package. In \<open>absoluteFile\<close> the symbol \<open>abs\<close>
  has section \<open>SHN_ABS\<close> and a value outside every segment. \<open>resolveSymbols\<close> of
  \<open>elf.go\<close> never looks at the section: it resolves the value as an address and leaves
  the object at 0, and \<open>readExecutable\<close> fails at the relocation against \<open>abs\<close> with
  "unresolved symbol". Package \<open>elf\<close> gives the same symbol the object \<open>0x7FFFFFFF\<close>
  and converts the file, emitting no fixup for that relocation.
\<close>
theorem absolute_symbol_unresolved_in_root_package:
  "(case assignSegments absoluteFile of
      Inl e \<Rightarrow> Inl e
    | Inr segs \<Rightarrow> main_resolveSymbols absoluteFile segs) =
     Inr [\<lparr>sym_addr = 0x10008, sym_ref = \<lparr>Obj = 1, Off = 8\<rparr>, sym_name = ''_stack_end''\<rparr>,
          \<lparr>sym_addr = 0x1234, sym_ref = \<lparr>Obj = 0, Off = 0\<rparr>, sym_name = ''abs''\<rparr>] \<and>
   readExecutable absoluteFile = Inl (UnresolvedSymbol ''abs'' 2) \<and>
   (case assignSegments absoluteFile of
      Inl e \<Rightarrow> Inl e
    | Inr segs \<Rightarrow> resolveSymbols absoluteFile segs) =
     Inr [\<lparr>sym_addr = 0x10008, sym_ref = \<lparr>Obj = 1, Off = 8\<rparr>, sym_name = ''_stack_end''\<rparr>,
          \<lparr>sym_addr = 0x1234, sym_ref = \<lparr>Obj = 0x7FFFFFFF, Off = 0\<rparr>, sym_name = ''abs''\<rparr>] \<and>
   ConvertToLELX absoluteFile = Inr absoluteProgram"
  by code_simp

end
